theory Spec2Isabelle
  imports Complex_Main "HOL-Library.Sublist" "HOL-Library.Log_Nat"
begin

section \<open>Vision MCP: the camera session, single capture and burst capture\<close>

text \<open>
  A shallow embedding of \<^verbatim>\<open>src/vision_mcp.py\<close>. The module keeps one
  process-wide dictionary \<^verbatim>\<open>_CAM\<close> (keys \<^verbatim>\<open>cap\<close>, \<^verbatim>\<open>index\<close>,
  \<^verbatim>\<open>props\<close>) and talks to three outside parties: the OpenCV capture object, the
  clock and the filesystem. The mutable part of all of them is the record \<open>world\<close>, passed
  in and returned; what the outside decides (which devices exist, whether the encoder
  accepts a frame, whether the filesystem refuses a path) is the read-only record \<open>env\<close>.

  Conventions of the model:
  \<^item> Python \<^verbatim>\<open>int\<close> is \<open>int\<close>. A Python \<^verbatim>\<open>float\<close> is the rational it denotes. In the
    count of lines 235 and 236 the float operations are the IEEE double ones (\<open>py_float\<close>,
    \<open>fl\<close>): conversion and division round to the nearest double, a tie to the even one,
    and a conversion out of range raises. The clock arithmetic of lines 254 to 262 is done
    on the instants themselves, exactly: the rounding of floats is left out there, and so
    are the ranges of \<^verbatim>\<open>float(period_ms)\<close> in line 254 and of \<^verbatim>\<open>time.sleep\<close>, which
    refuses a sleep of \<open>2^63\<close> nanoseconds or more.
  \<^item> A function keeps its name without the leading underscore (\<^verbatim>\<open>_open_cam\<close> is
    \<open>open_cam\<close>).
  \<^item> A Python string is a \<open>string\<close>, a list of code points below 256.
  \<^item> A raised exception is \<open>Inl\<close> of an \<open>exn\<close>; a returned dictionary is \<open>Inr\<close> of a
    \<open>result\<close>.
  \<^item> \<^verbatim>\<open>out_dir / fname\<close> is kept as the pair \<open>(out_dir, fname)\<close>; how pathlib
    renders it is not modelled.
  \<^item> Logging to stderr is left out.
\<close>

subsection \<open>Data\<close>

type_synonym frame = "nat list"
type_synonym bytes = "nat list"
type_synonym path = "string \<times> string"

datatype cap_prop = CAP_PROP_FRAME_WIDTH | CAP_PROP_FRAME_HEIGHT | CAP_PROP_FPS | CAP_PROP_BUFFERSIZE

text \<open>One answer of \<^verbatim>\<open>cap.read()\<close>: how long the call took, the flag and the frame.\<close>

record grab =
  took :: rat
  ret :: bool
  img :: "frame option"

text \<open>
  The capture object \<^verbatim>\<open>cv2.VideoCapture\<close>: whether it reports itself opened, the
  answers its next reads will give (a read on an exhausted device delivers no frame), its
  current properties, and what it makes of a requested property value (\<open>None\<close>: refused).
\<close>

record capture =
  isOpened :: bool
  pending :: "grab list"
  getp :: "cap_prop \<Rightarrow> rat"
  negotiate :: "cap_prop \<Rightarrow> rat \<Rightarrow> rat option"

record props =
  p_width :: int
  p_height :: int
  p_fps :: rat
  p_backend :: string

text \<open>
  What the process did to the clock and the device, in order: \<open>Slept d\<close> is a call
  \<^verbatim>\<open>time.sleep(d)\<close>, \<open>ReadAt t\<close> a call \<^verbatim>\<open>cap.read()\<close> made at the instant
  \<open>t\<close> of \<^verbatim>\<open>time.perf_counter()\<close>.
\<close>

datatype event = Slept rat | ReadAt rat

text \<open>
  \<open>CAM_props = None\<close> is the empty dictionary. \<open>mono\<close> is \<^verbatim>\<open>time.perf_counter()\<close>,
  \<open>wall\<close> is \<^verbatim>\<open>time.time()\<close>; a sleep of \<open>d\<close> seconds moves both by \<open>d\<close>, a read
  by the time the device took, and nothing else takes time. \<open>fs_dirs\<close> lists the
  directories created, \<open>fs_files\<close> the files created, in order.
\<close>

record world =
  CAM_cap :: "capture option"
  CAM_index :: "int option"
  CAM_props :: "props option"
  mono :: rat
  wall :: rat
  trace :: "event list"
  fs_dirs :: "string list"
  fs_files :: "(path \<times> bytes) list"

text \<open>
  What \<^verbatim>\<open>cv2.imencode\<close> does with a frame: it returns the flag \<^verbatim>\<open>True\<close> and the
  bytes, or the flag \<^verbatim>\<open>False\<close>, or it raises \<^verbatim>\<open>cv2.error\<close>.
\<close>

datatype encoding = Encoded bytes | Refused | Threw string

text \<open>
  \<open>strftime\<close> is \<^verbatim>\<open>time.strftime("%Y%m%d_%H%M%S")\<close> and \<open>time_ms\<close> is
  \<^verbatim>\<open>int((time.time() % 1) * 1000)\<close>, a float computation, both at the given instant
  of \<^verbatim>\<open>time.time()\<close>.
\<close>

record env =
  VideoCapture :: "int \<Rightarrow> int option \<Rightarrow> capture"
  cv2_attr :: "string \<Rightarrow> int option"
  imencode :: "string \<Rightarrow> frame \<Rightarrow> encoding"
  expanduser :: "string \<Rightarrow> string"
  strftime :: "rat \<Rightarrow> string"
  time_ms :: "rat \<Rightarrow> nat"
  mkdir_fault :: "string \<Rightarrow> string option"
  open_fault :: "path \<Rightarrow> string option"
  write_fault :: "path \<Rightarrow> string option"

datatype exn = ZeroDivisionError | OverflowError | OSError string | Cv2Error string

text \<open>The dictionaries the tools return, one constructor for each shape.\<close>

datatype result =
    Failed string
  | FailedPaths string "path list"
  | Started bool string "props option" "int option"
  | Captured path string int int
  | Bursted "path list" string int int nat int int string

fun ok :: "result \<Rightarrow> bool" where
  "ok (Failed e) = False"
| "ok (FailedPaths e ps) = False"
| "ok (Started b m p i) = b"
| "ok (Captured p m w h) = True"
| "ok (Bursted ps m w h k pm dm d) = True"

subsection \<open>Strings and numbers of the Python runtime\<close>

text \<open>
  \<^verbatim>\<open>str.lower\<close> and \<^verbatim>\<open>str.isspace\<close> on the code points below 256: the capital
  letters are \<open>A\<close> to \<open>Z\<close> and the Latin-1 capitals 192 to 222 but for the
  multiplication sign 215.
\<close>

definition lower_char :: "char \<Rightarrow> char" where
  "lower_char c =
     (let k = (of_char c :: nat)
      in if (65 \<le> k \<and> k \<le> 90) \<or> (192 \<le> k \<and> k \<le> 222 \<and> k \<noteq> 215)
         then char_of (k + 32) else c)"

definition lower :: "string \<Rightarrow> string" where
  "lower s = map lower_char s"

definition isspace :: "char \<Rightarrow> bool" where
  "isspace c =
     (let k = (of_char c :: nat)
      in (9 \<le> k \<and> k \<le> 13) \<or> (28 \<le> k \<and> k \<le> 32) \<or> k = 133 \<or> k = 160)"

definition strip :: "string \<Rightarrow> string" where
  "strip s = rev (dropWhile isspace (rev (dropWhile isspace s)))"

definition digit :: "nat \<Rightarrow> char" where
  "digit d = char_of (48 + d)"

fun dec :: "nat \<Rightarrow> string" where
  "dec n = (if n < 10 then [digit n] else dec (n div 10) @ [digit (n mod 10)])"

declare dec.simps [simp del]

text \<open>\<^verbatim>\<open>f"{i:0kd}"\<close> for a non-negative \<open>i\<close>: zeros in front up to width \<open>k\<close>, never cut.\<close>

definition zpad :: "nat \<Rightarrow> nat \<Rightarrow> string" where
  "zpad k i = replicate (k - length (dec i)) (CHR ''0'') @ dec i"

definition str_int :: "int \<Rightarrow> string" where
  "str_int i = (if i < 0 then ''-'' @ dec (nat (- i)) else dec (nat i))"

text \<open>\<^verbatim>\<open>int(x)\<close> on a float cuts towards zero.\<close>

definition py_int :: "rat \<Rightarrow> int" where
  "py_int x = (if 0 \<le> x then \<lfloor>x\<rfloor> else \<lceil>x\<rceil>)"

text \<open>\<^verbatim>\<open>round(x)\<close> on a float: to the nearest integer, a tie to the even one.\<close>

definition py_round :: "rat \<Rightarrow> int" where
  "py_round x =
     (let f = \<lfloor>x\<rfloor>; d = x - of_int f
      in if d < 1 / 2 then f else if 1 / 2 < d then f + 1 else if even f then f else f + 1)"

text \<open>
  Doubles. \<open>ilog2 x\<close> is the exponent \<open>e\<close> with \<open>2^e \<le> x < 2^(e+1)\<close> of a positive \<open>x\<close>.
  \<open>fl x\<close> is the double nearest to \<open>x\<close>, a tie going to the even significand: a
  multiple of the unit in the last place \<open>2^(e-52)\<close>, where exponents below \<open>-1022\<close> count
  as \<open>-1022\<close> (the subnormal numbers). \<^verbatim>\<open>float(i)\<close> raises from \<open>2^1024 - 2^970\<close> on,
  the first integer that rounds beyond the largest double.
\<close>

definition ilog2 :: "rat \<Rightarrow> int" where
  "ilog2 x =
     (let (a, b) = quotient_of x; e = bitlen a - bitlen b
      in if 2 powi e \<le> x then e else e - 1)"

definition fl :: "rat \<Rightarrow> rat" where
  "fl x =
     (if x = 0 then 0
      else
        let e = max (ilog2 \<bar>x\<bar>) (- 1022); u = 2 powi (e - 52)
        in of_int (py_round (x / u)) * u)"

definition float_limit :: int where
  "float_limit = 2 ^ 1024 - 2 ^ 970"

definition py_float :: "int \<Rightarrow> exn + rat" where
  "py_float i = (if float_limit \<le> \<bar>i\<bar> then Inl OverflowError else Inr (fl (of_int i)))"

subsection \<open>The capture object, the clock and the filesystem\<close>

definition cap_set :: "cap_prop \<Rightarrow> rat \<Rightarrow> capture \<Rightarrow> capture" where
  "cap_set p v c =
     (case negotiate c p v of None \<Rightarrow> c | Some v' \<Rightarrow> c\<lparr>getp := (getp c)(p := v')\<rparr>)"

text \<open>
  \<^verbatim>\<open>cap.read()\<close> on the session's capture object, which every caller has seen
  present before: the call is logged, the clocks move by the time it took, the device loses
  the answer it gave.
\<close>

definition cap_read :: "world \<Rightarrow> (bool \<times> frame option) \<times> world" where
  "cap_read w =
     (case CAM_cap w of
        None \<Rightarrow> ((False, None), w)
      | Some c \<Rightarrow>
          (case pending c of
             [] \<Rightarrow> ((False, None), w\<lparr>trace := trace w @ [ReadAt (mono w)]\<rparr>)
           | g # gs \<Rightarrow>
               ((ret g, img g),
                w\<lparr>CAM_cap := Some (c\<lparr>pending := gs\<rparr>),
                  mono := mono w + took g, wall := wall w + took g,
                  trace := trace w @ [ReadAt (mono w)]\<rparr>)))"

definition sleep :: "rat \<Rightarrow> world \<Rightarrow> world" where
  "sleep d w = w\<lparr>mono := mono w + d, wall := wall w + d, trace := trace w @ [Slept d]\<rparr>"

text \<open>\<^verbatim>\<open>out_dir.mkdir(parents=True, exist_ok=True)\<close>\<close>

definition mkdir :: "env \<Rightarrow> string \<Rightarrow> world \<Rightarrow> exn + world" where
  "mkdir E d w =
     (case mkdir_fault E d of
        Some m \<Rightarrow> Inl (OSError m)
      | None \<Rightarrow> Inr (if d \<in> set (fs_dirs w) then w else w\<lparr>fs_dirs := fs_dirs w @ [d]\<rparr>))"

text \<open>
  \<^verbatim>\<open>with open(fpath, "wb") as f: f.write(img_bytes)\<close>: opening may fail, leaving
  nothing; writing may fail, leaving the file just created without its content.
\<close>

definition write_file :: "env \<Rightarrow> path \<Rightarrow> bytes \<Rightarrow> world \<Rightarrow> exn option \<times> world" where
  "write_file E p b w =
     (case open_fault E p of
        Some m \<Rightarrow> (Some (OSError m), w)
      | None \<Rightarrow>
          (case write_fault E p of
             Some m \<Rightarrow> (Some (OSError m), w\<lparr>fs_files := fs_files w @ [(p, [])]\<rparr>)
           | None \<Rightarrow> (None, w\<lparr>fs_files := fs_files w @ [(p, b)]\<rparr>)))"

definition exn_text :: "exn \<Rightarrow> string" where
  "exn_text e =
     (case e of
        ZeroDivisionError \<Rightarrow> ''float division by zero''
      | OverflowError \<Rightarrow> ''int too large to convert to float''
      | OSError m \<Rightarrow> m
      | Cv2Error m \<Rightarrow> m)"

subsection \<open>Opening the camera\<close>

definition BACKENDS :: "env \<Rightarrow> (string \<times> int option) list" where
  "BACKENDS E =
     [(''auto'', None),
      (''avfoundation'', cv2_attr E ''CAP_AVFOUNDATION''),
      (''msmf'', cv2_attr E ''CAP_MSMF''),
      (''dshow'', cv2_attr E ''CAP_DSHOW''),
      (''v4l2'', cv2_attr E ''CAP_V4L2'')]"

definition backend_key :: "string \<Rightarrow> string" where
  "backend_key backend = (if backend \<noteq> [] then strip (lower backend) else ''auto'')"

definition api_pref :: "env \<Rightarrow> string \<Rightarrow> int option" where
  "api_pref E be = (case map_of (BACKENDS E) be of None \<Rightarrow> None | Some v \<Rightarrow> v)"

definition open_cam ::
  "env \<Rightarrow> int \<Rightarrow> int \<Rightarrow> int \<Rightarrow> int \<Rightarrow> string \<Rightarrow> world \<Rightarrow> (bool \<times> string) \<times> world" where
  "open_cam E camera_index width height fps backend w =
     (if CAM_cap w \<noteq> None then ((True, ''Camera already open''), w)
      else
        let be = backend_key backend;
            cap = VideoCapture E camera_index (api_pref E be)
        in if \<not> isOpened cap
           then ((False, ''Failed to open camera index '' @ str_int camera_index
                          @ '' (backend='' @ be @ '')''), w)
           else
             let cap1 = (if 0 < width then cap_set CAP_PROP_FRAME_WIDTH (of_int width) cap
                         else cap);
                 cap2 = (if 0 < height then cap_set CAP_PROP_FRAME_HEIGHT (of_int height) cap1
                         else cap1);
                 cap3 = (if 0 < fps then cap_set CAP_PROP_FPS (of_int fps) cap2 else cap2);
                 actual = \<lparr>p_width = py_int (getp cap3 CAP_PROP_FRAME_WIDTH),
                           p_height = py_int (getp cap3 CAP_PROP_FRAME_HEIGHT),
                           p_fps = getp cap3 CAP_PROP_FPS,
                           p_backend = be\<rparr>
             in ((True, ''Camera opened''),
                 w\<lparr>CAM_cap := Some cap3, CAM_index := Some camera_index,
                   CAM_props := Some actual\<rparr>))"

definition vision_start ::
  "env \<Rightarrow> int \<Rightarrow> int \<Rightarrow> int \<Rightarrow> int \<Rightarrow> string \<Rightarrow> world \<Rightarrow> result \<times> world" where
  "vision_start E camera_index width height fps backend w =
     (let ((b, msg), w') = open_cam E camera_index width height fps backend w
      in (Started b msg (CAM_props w') (CAM_index w'), w'))"

subsection \<open>One frame\<close>

definition grab_frame :: "world \<Rightarrow> (bool \<times> frame option \<times> string) \<times> world" where
  "grab_frame w =
     (case CAM_cap w of
        None \<Rightarrow> ((False, None, ''Camera not open''), w)
      | Some cap \<Rightarrow>
          if \<not> isOpened cap then ((False, None, ''Camera not open''), w)
          else
            let ((b, fr), w') = cap_read w
            in if \<not> b \<or> fr = None then ((False, None, ''Failed to read frame''), w')
               else ((True, fr, ''ok''), w'))"

definition ext_of :: "string \<Rightarrow> string" where
  "ext_of fmt = (if lower fmt = ''jpg'' then ''.jpg'' else ''.png'')"

definition mime_of :: "string \<Rightarrow> string" where
  "mime_of ext = (if ext = ''.jpg'' then ''image/jpeg'' else ''image/png'')"

definition encode_image :: "env \<Rightarrow> frame \<Rightarrow> string \<Rightarrow> exn + bool \<times> bytes \<times> string" where
  "encode_image E fr fmt =
     (let ext = ext_of fmt
      in case imencode E ext fr of
           Threw m \<Rightarrow> Inl (Cv2Error m)
         | Refused \<Rightarrow> Inr (False, [], ''cv2.imencode failed'')
         | Encoded buf \<Rightarrow> Inr (True, buf, ext))"

definition timestamp_name :: "env \<Rightarrow> string \<Rightarrow> string \<Rightarrow> world \<Rightarrow> string" where
  "timestamp_name E pre ext w =
     pre @ ''_'' @ strftime E (wall w) @ ''_'' @ zpad 3 (time_ms E (wall w)) @ ext"

definition props_width :: "world \<Rightarrow> int" where
  "props_width w = (case CAM_props w of None \<Rightarrow> 0 | Some p \<Rightarrow> p_width p)"

definition props_height :: "world \<Rightarrow> int" where
  "props_height w = (case CAM_props w of None \<Rightarrow> 0 | Some p \<Rightarrow> p_height p)"

definition vision_capture :: "env \<Rightarrow> string \<Rightarrow> string \<Rightarrow> world \<Rightarrow> (exn + result) \<times> world" where
  "vision_capture E save_dir fmt w =
     (let ((b, fr, msg), w1) = grab_frame w
      in if \<not> b then (Inr (Failed msg), w1)
         else
           (case encode_image E (the fr) fmt of
              Inl e \<Rightarrow> (Inl e, w1)
            | Inr (b2, img_bytes, ext) \<Rightarrow>
                if \<not> b2 then (Inr (Failed ext), w1)
                else
                  let out_dir = expanduser E save_dir
                  in (case mkdir E out_dir w1 of
                       Inl e \<Rightarrow> (Inl e, w1)
                     | Inr w2 \<Rightarrow>
                         let fpath = (out_dir, timestamp_name E ''frame'' ext w2);
                             (r, w3) = write_file E fpath img_bytes w2
                         in (case r of
                               Some e \<Rightarrow>
                                 (Inr (Failed (''Failed to write file: '' @ exn_text e)), w3)
                             | None \<Rightarrow>
                                 (Inr (Captured fpath (mime_of ext)
                                         (props_width w3) (props_height w3)), w3)))))"

subsection \<open>Burst\<close>

text \<open>
  Lines 235 and 236: the frame count after the duration override,
  \<^verbatim>\<open>max(1, int(round(float(duration_ms) / float(period_ms))))\<close>. The operands are
  converted left to right, each conversion raising on an integer out of range; the
  division is the float division, which raises on a zero divisor and rounds its quotient.
\<close>

definition burst_n :: "int \<Rightarrow> int \<Rightarrow> int \<Rightarrow> exn + int" where
  "burst_n n period_ms duration_ms =
     (if duration_ms \<noteq> 0 \<and> 0 < duration_ms
      then
        (case py_float duration_ms of
           Inl e \<Rightarrow> Inl e
         | Inr a \<Rightarrow>
             (case py_float period_ms of
                Inl e \<Rightarrow> Inl e
              | Inr b \<Rightarrow>
                  if b = 0 then Inl ZeroDivisionError
                  else Inr (max 1 (py_round (fl (a / b))))))
      else Inr n)"

text \<open>The warm-up loop: reads whose answers are dropped.\<close>

fun warm :: "nat \<Rightarrow> world \<Rightarrow> world" where
  "warm 0 w = w"
| "warm (Suc k) w = warm k (snd (cap_read w))"

definition burst_warm :: "capture \<Rightarrow> int \<Rightarrow> world \<Rightarrow> world" where
  "burst_warm cap warmup w =
     warm (nat (max 0 warmup)) (w\<lparr>CAM_cap := Some (cap_set CAP_PROP_BUFFERSIZE 1 cap)\<rparr>)"

definition period_s :: "int \<Rightarrow> rat" where
  "period_s period_ms = max 0 (of_int period_ms / 1000)"

definition burst_name :: "env \<Rightarrow> world \<Rightarrow> nat \<Rightarrow> string \<Rightarrow> string" where
  "burst_name E w i ext =
     ''asl_'' @ strftime E (wall w) @ ''_'' @ zpad 3 (time_ms E (wall w)) @ ''_'' @ zpad 2 i
       @ ext"

text \<open>
  How the loop over \<^verbatim>\<open>range(max(1, int(n)))\<close> ends: an exception, a
  \<^verbatim>\<open>return\<close> from inside, or the range used up.
\<close>

datatype loop_end = Raised exn | Returned result | Ran "path list"

text \<open>The body of the loop, lines 259 to 278, for the index \<open>i\<close>.\<close>

definition burst_frame ::
  "env \<Rightarrow> rat \<Rightarrow> rat \<Rightarrow> string \<Rightarrow> string \<Rightarrow> string \<Rightarrow> nat \<Rightarrow> path list \<Rightarrow> world
   \<Rightarrow> loop_end \<times> world" where
  "burst_frame E t0 ps fmt ext out_dir i paths w =
     (let target = t0 + of_nat i * ps;
          now = mono w;
          w1 = (if now < target then sleep (target - now) w else w);
          ((b, fr, msg), w2) = grab_frame w1
      in if \<not> b \<or> fr = None
         then (Returned (FailedPaths (''Failed to read frame: '' @ msg) paths), w2)
         else
           (case encode_image E (the fr) fmt of
              Inl e \<Rightarrow> (Raised e, w2)
            | Inr (b2, img_bytes, x) \<Rightarrow>
                if \<not> b2 then (Returned (FailedPaths ''cv2.imencode failed'' paths), w2)
                else
                  let fpath = (out_dir, burst_name E w2 i ext);
                      (r, w3) = write_file E fpath img_bytes w2
                  in (case r of
                        Some e \<Rightarrow> (Raised e, w3)
                      | None \<Rightarrow> (Ran (paths @ [fpath]), w3))))"

fun burst_frames ::
  "env \<Rightarrow> rat \<Rightarrow> rat \<Rightarrow> string \<Rightarrow> string \<Rightarrow> string \<Rightarrow> nat list \<Rightarrow> path list \<Rightarrow> world
   \<Rightarrow> loop_end \<times> world" where
  "burst_frames E t0 ps fmt ext out_dir [] paths w = (Ran paths, w)"
| "burst_frames E t0 ps fmt ext out_dir (i # rest) paths w =
     (case burst_frame E t0 ps fmt ext out_dir i paths w of
        (Ran paths', w') \<Rightarrow> burst_frames E t0 ps fmt ext out_dir rest paths' w'
      | (Raised e, w') \<Rightarrow> (Raised e, w')
      | (Returned r, w') \<Rightarrow> (Returned r, w'))"

definition vision_burst ::
  "env \<Rightarrow> int \<Rightarrow> int \<Rightarrow> string \<Rightarrow> string \<Rightarrow> int \<Rightarrow> int \<Rightarrow> world \<Rightarrow> (exn + result) \<times> world" where
  "vision_burst E n period_ms save_dir fmt warmup duration_ms w =
     (case CAM_cap w of
        None \<Rightarrow> (Inr (Failed ''Camera not open''), w)
      | Some cap \<Rightarrow>
          if \<not> isOpened cap then (Inr (Failed ''Camera not open''), w)
          else
            (case burst_n n period_ms duration_ms of
               Inl e \<Rightarrow> (Inl e, w)
             | Inr n' \<Rightarrow>
                 let w2 = burst_warm cap warmup w;
                     out_dir = expanduser E save_dir
                 in (case mkdir E out_dir w2 of
                       Inl e \<Rightarrow> (Inl e, w2)
                     | Inr w3 \<Rightarrow>
                         let ext = ext_of fmt;
                             mime = mime_of ext;
                             width = props_width w3;
                             height = props_height w3;
                             (fin, w4) = burst_frames E (mono w3) (period_s period_ms) fmt ext
                                           out_dir [0..<nat (max 1 n')] [] w3
                         in (case fin of
                               Raised e \<Rightarrow> (Inl e, w4)
                             | Returned r \<Rightarrow> (Inr r, w4)
                             | Ran paths \<Rightarrow>
                                 (Inr (Bursted paths mime width height (length paths)
                                         period_ms duration_ms out_dir), w4)))))"

subsection \<open>A test bench\<close>

text \<open>
  A camera that delivers \<open>k\<close> frames, ten milliseconds each, and accepts every
  property; an environment with one such camera at index 0, the V4L2 backend only, an
  encoder that accepts everything and a filesystem that refuses nothing.
\<close>

definition bench_cam :: "nat \<Rightarrow> capture" where
  "bench_cam k =
     \<lparr>isOpened = True,
      pending = map (\<lambda>i. \<lparr>took = 1 / 100, ret = True, img = Some [i]\<rparr>) [0..<k],
      getp = (\<lambda>p. 0),
      negotiate = (\<lambda>p v. Some v)\<rparr>"

definition bench_env :: env where
  "bench_env =
     \<lparr>VideoCapture = (\<lambda>i api. if i = 0 then bench_cam 8 else (bench_cam 0)\<lparr>isOpened := False\<rparr>),
      cv2_attr = (\<lambda>s. if s = ''CAP_V4L2'' then Some 200 else None),
      imencode = (\<lambda>ext fr. Encoded fr),
      expanduser = (\<lambda>d. d),
      strftime = (\<lambda>t. ''20250101_120000''),
      time_ms = (\<lambda>t. nat \<lfloor>frac t * 1000\<rfloor>),
      mkdir_fault = (\<lambda>d. None),
      open_fault = (\<lambda>p. None),
      write_fault = (\<lambda>p. None)\<rparr>"

definition closed_world :: world where
  "closed_world =
     \<lparr>CAM_cap = None, CAM_index = None, CAM_props = None, mono = 5, wall = 1000 + 1 / 4,
      trace = [], fs_dirs = [], fs_files = []\<rparr>"

definition open_world :: "nat \<Rightarrow> world" where
  "open_world k =
     closed_world\<lparr>CAM_cap := Some (bench_cam k), CAM_index := Some 0,
       CAM_props := Some \<lparr>p_width = 640, p_height = 480, p_fps = 15, p_backend = ''auto''\<rparr>\<rparr>"

subsection \<open>Vocabulary of the properties\<close>

text \<open>The paths a returned dictionary carries.\<close>

fun result_paths :: "exn + result \<Rightarrow> path list" where
  "result_paths (Inr (Bursted ps m wd ht k pm dm d)) = ps"
| "result_paths (Inr (FailedPaths e ps)) = ps"
| "result_paths (Inr (Captured p m wd ht)) = [p]"
| "result_paths r = []"

text \<open>
  A path of the burst with index \<open>i\<close>: in the target directory, the name starting with
  \<^verbatim>\<open>asl_\<close> and ending with an underscore, the padded index and the extension.
\<close>

definition indexed :: "string \<Rightarrow> string \<Rightarrow> nat \<Rightarrow> path \<Rightarrow> bool" where
  "indexed out_dir ext i p \<longleftrightarrow>
     fst p = out_dir \<and> prefix ''asl_'' (snd p) \<and> suffix (''_'' @ zpad 2 i @ ext) (snd p)"

text \<open>A read that delivers a frame the encoder accepts for the format.\<close>

definition good :: "env \<Rightarrow> string \<Rightarrow> grab \<Rightarrow> bool" where
  "good E fmt g \<longleftrightarrow>
     ret g
     \<and> (case img g of
          None \<Rightarrow> False
        | Some fr \<Rightarrow> (case imencode E (ext_of fmt) fr of Encoded buf \<Rightarrow> True | _ \<Rightarrow> False))"


text \<open>A filesystem that refuses no file.\<close>

definition fs_sound :: "env \<Rightarrow> bool" where
  "fs_sound E \<longleftrightarrow> (\<forall>p. open_fault E p = None \<and> write_fault E p = None)"


text \<open>
  The schedule in the words of the specification: the target of frame \<open>i\<close> is
  \<open>t0 + i * (period_ms / 1000)\<close>; a frame whose target lies in the future is read at its
  target after a sleep of exactly the difference, a frame whose target has passed is read
  at once; the next frame is looked at when the read returns, \<open>lat\<close> listing how long
  the reads take.
\<close>

fun spec_trace :: "rat \<Rightarrow> int \<Rightarrow> rat \<Rightarrow> nat list \<Rightarrow> rat list \<Rightarrow> event list" where
  "spec_trace t0 period_ms now [] lat = []"
| "spec_trace t0 period_ms now (i # rest) lat =
     (let target = t0 + of_nat i * (of_int period_ms / 1000);
          start = (if now < target then target else now)
      in (if now < target then [Slept (target - now)] else [])
         @ [ReadAt start]
         @ spec_trace t0 period_ms (start + (case lat of [] \<Rightarrow> 0 | l # ls \<Rightarrow> l)) rest (tl lat))"

text \<open>Environments whose filesystem refuses the directory, or the content of any file.\<close>

definition locked_env :: env where
  "locked_env = bench_env\<lparr>mkdir_fault := (\<lambda>d. Some ''Permission denied'')\<rparr>"

definition full_env :: env where
  "full_env = bench_env\<lparr>write_fault := (\<lambda>p. Some ''No space left on device'')\<rparr>"

section \<open>Properties\<close>

subsection \<open>Rounding and doubles\<close>

text \<open>
  \<^verbatim>\<open>round\<close> picks an integer that is at most one half away, the only one when the
  distance is less than one half; it is odd as a function.
\<close>

lemma py_round_nearest: "\<bar>of_int (py_round x) - x\<bar> \<le> 1 / 2"
proof -
  have "of_int \<lfloor>x\<rfloor> \<le> x" and "x < of_int \<lfloor>x\<rfloor> + 1"
    by linarith+
  then show ?thesis
    by (auto simp: py_round_def Let_def abs_le_iff)
qed

lemma py_round_unique:
  assumes "of_int k - 1 / 2 < y" and "y < of_int k + 1 / 2"
  shows "py_round y = k"
proof -
  have f: "\<lfloor>y\<rfloor> = k \<or> \<lfloor>y\<rfloor> = k - 1"
    using assms by (simp add: floor_eq_iff) linarith
  then show ?thesis
  proof
    assume "\<lfloor>y\<rfloor> = k"
    with assms show ?thesis by (simp add: py_round_def Let_def)
  next
    assume "\<lfloor>y\<rfloor> = k - 1"
    with assms show ?thesis by (simp add: py_round_def Let_def)
  qed
qed

lemma py_round_of_int: "py_round (of_int k) = k"
  by (simp add: py_round_def)

lemma py_round_tie: "py_round (of_int k + 1 / 2) = (if even k then k else k + 1)"
proof -
  have "\<lfloor>(of_int k :: rat) + 1 / 2\<rfloor> = k" by (simp add: floor_eq_iff)
  then show ?thesis by (simp add: py_round_def Let_def)
qed

lemma py_round_minus: "py_round (- y) = - py_round y"
proof (cases "\<exists>k. y = of_int k + 1 / 2")
  case True
  then obtain k where k: "y = of_int k + 1 / 2" by blast
  then have "- y = of_int (- k - 1) + 1 / 2" by simp
  then have "py_round (- y) = (if even (- k - 1) then - k - 1 else - k - 1 + 1)"
    by (simp only: py_round_tie)
  with k show ?thesis by (simp add: py_round_tie)
next
  case False
  define j where "j = py_round y"
  have near: "\<bar>of_int j - y\<bar> \<le> 1 / 2" unfolding j_def by (rule py_round_nearest)
  have a: "y \<noteq> of_int j + 1 / 2" using False by blast
  have "y \<noteq> of_int (j - 1) + 1 / 2" using False by blast
  then have b: "y \<noteq> of_int j - 1 / 2" by simp
  have c: "of_int j - 1 / 2 \<le> y" "y \<le> of_int j + 1 / 2"
    using near by linarith+
  have "of_int j - 1 / 2 < y" "y < of_int j + 1 / 2"
    using a b c by (simp_all add: less_le)
  then have "of_int (- j) - 1 / 2 < - y" "- y < of_int (- j) + 1 / 2" by simp_all
  then have "py_round (- y) = - j" by (rule py_round_unique)
  then show ?thesis by (simp add: j_def)
qed

text \<open>The exponent of a positive number.\<close>

lemma bitlen_rat:
  assumes "0 < a"
  shows "(2::rat) powi (bitlen a - 1) \<le> of_int a" and "(of_int a :: rat) < 2 powi bitlen a"
proof -
  have pos: "0 < bitlen a"
    using assms bitlen_nonneg [of a] bitlen_eq_zero_iff [of a] by linarith
  have b: "2 ^ nat (bitlen a - 1) \<le> a" "a < 2 ^ nat (bitlen a)"
    using bitlen_bounds [OF assms] by simp_all
  have "(of_int (2 ^ nat (bitlen a - 1)) :: rat) \<le> of_int a"
    using b(1) by (simp only: of_int_le_iff)
  then show "(2::rat) powi (bitlen a - 1) \<le> of_int a"
    using pos by (simp add: power_int_def)
  have "(of_int a :: rat) < of_int (2 ^ nat (bitlen a))"
    using b(2) by (simp only: of_int_less_iff)
  then show "(of_int a :: rat) < 2 powi bitlen a"
    using pos by (simp add: power_int_def)
qed

lemma ilog2_bounds:
  assumes "0 < x"
  shows "2 powi ilog2 x \<le> x" and "x < 2 powi (ilog2 x + 1)"
proof -
  obtain a b where q: "quotient_of x = (a, b)" by (cases "quotient_of x")
  have bpos: "0 < b" using q by (rule quotient_of_denom_pos)
  have x: "x = of_int a / of_int b" using q by (rule quotient_of_div)
  have apos: "0 < a" using assms bpos x by (simp add: zero_less_divide_iff)
  define e where "e = bitlen a - bitlen b"
  have il: "ilog2 x = (if 2 powi e \<le> x then e else e - 1)"
    by (simp add: ilog2_def q e_def Let_def)
  have rb: "0 < (of_int b :: rat)" using bpos by simp
  have "x < 2 powi bitlen a / 2 powi (bitlen b - 1)"
    unfolding x using bitlen_rat [OF apos] bitlen_rat [OF bpos] apos
    by (intro frac_less) simp_all
  then have up: "x < 2 powi (e + 1)"
    by (simp add: e_def power_int_diff power_int_add)
  have "2 powi (bitlen a - 1) / 2 powi bitlen b < x"
    unfolding x using bitlen_rat [OF apos] bitlen_rat [OF bpos] rb
    by (intro frac_less2) simp_all
  then have lo: "2 powi (e - 1) < x"
    by (simp add: e_def power_int_diff)
  show "2 powi ilog2 x \<le> x" using il lo by auto
  show "x < 2 powi (ilog2 x + 1)" using il up by (auto simp: not_le)
qed

lemma fl_zero: "fl 0 = 0"
  by (simp add: fl_def)

lemma float_limit_pos: "0 < float_limit"
  by (simp add: float_limit_def)

text \<open>
  The double of a normal number is off by at most half a unit in the last place, and
  not at all when the number is a multiple of that unit: every integer and every half of
  an integer below \<open>2^52\<close> is a double.
\<close>

lemma two_powi_less:
  assumes "(2::rat) powi m < 2 powi n"
  shows "m < n"
proof (rule ccontr)
  assume "\<not> m < n"
  then have "n \<le> m" by simp
  then have "(2::rat) powi n \<le> 2 powi m" by (rule power_int_increasing) simp
  with assms show False by simp
qed

lemma fl_minus: "fl (- x) = - fl x"
  by (simp add: fl_def Let_def py_round_minus)

lemma fl_error:
  assumes "x \<noteq> 0" and "- 1022 \<le> ilog2 \<bar>x\<bar>"
  shows "\<bar>fl x - x\<bar> \<le> 2 powi (ilog2 \<bar>x\<bar> - 53)"
proof -
  define u :: rat where "u = 2 powi (ilog2 \<bar>x\<bar> - 52)"
  have upos: "0 < u" by (simp add: u_def)
  have f: "fl x = of_int (py_round (x / u)) * u"
    using assms by (simp add: fl_def Let_def u_def max_def)
  have "fl x - x = (of_int (py_round (x / u)) - x / u) * u"
    using upos by (simp add: f algebra_simps)
  then have "\<bar>fl x - x\<bar> = \<bar>of_int (py_round (x / u)) - x / u\<bar> * u"
    using upos by (simp add: abs_mult)
  also have "\<dots> \<le> 1 / 2 * u"
    using upos py_round_nearest [of "x / u"] by (intro mult_right_mono) simp_all
  also have "1 / 2 * u = 2 powi (ilog2 \<bar>x\<bar> - 53)"
    by (simp add: u_def power_int_diff)
  finally show ?thesis .
qed

lemma fl_exact:
  assumes "x \<noteq> 0" and "- 1022 \<le> ilog2 \<bar>x\<bar>"
    and "x / 2 powi (ilog2 \<bar>x\<bar> - 52) = of_int m"
  shows "fl x = x"
proof -
  define u :: rat where "u = 2 powi (ilog2 \<bar>x\<bar> - 52)"
  have upos: "0 < u" by (simp add: u_def)
  have f: "fl x = of_int (py_round (x / u)) * u"
    using assms(1,2) by (simp add: fl_def Let_def u_def max_def)
  have "x / u = of_int m" using assms(3) by (simp add: u_def)
  then have "fl x = x / u * u" by (simp only: f py_round_of_int)
  then show ?thesis using upos by simp
qed

lemma fl_half_int:
  assumes "0 < j" and "j < 2 ^ 53"
  shows "fl (of_int j / 2) = of_int j / 2"
proof -
  define x :: rat where "x = of_int j / 2"
  define e where "e = ilog2 x"
  have xpos: "0 < x" using assms(1) by (simp add: x_def)
  have lo: "2 powi (- 1) \<le> x"
  proof -
    have "1 \<le> j" using assms(1) by simp
    then have "(1::rat) \<le> of_int j" by (simp only: of_int_1_le_iff)
    then show ?thesis by (simp add: x_def power_int_minus)
  qed
  have hi: "x < 2 powi 52"
  proof -
    have "(of_int j :: rat) < of_int (2 ^ 53)" using assms(2) by (simp only: of_int_less_iff)
    then show ?thesis by (simp add: x_def)
  qed
  have b: "2 powi e \<le> x" "x < 2 powi (e + 1)"
    unfolding e_def using xpos by (rule ilog2_bounds)+
  have "(2::rat) powi (- 1) < 2 powi (e + 1)"
    using lo b(2) by (rule le_less_trans)
  then have "- 1 < e + 1" by (rule two_powi_less)
  then have e1: "- 1 \<le> e" by simp
  have "(2::rat) powi e < 2 powi 52"
    using b(1) hi by (rule le_less_trans)
  then have "e < 52" by (rule two_powi_less)
  then have e2: "e \<le> 51" by simp
  have "x / 2 powi (e - 52) = x * 2 powi (52 - e)"
    by (simp add: power_int_diff)
  also have "\<dots> = x * 2 ^ nat (52 - e)"
    using e2 by (simp add: power_int_def)
  also have "nat (52 - e) = Suc (nat (51 - e))" using e2 by simp
  also have "x * 2 ^ Suc (nat (51 - e)) = of_int (j * 2 ^ nat (51 - e))"
    by (simp add: x_def)
  finally have q: "x / 2 powi (ilog2 \<bar>x\<bar> - 52) = of_int (j * 2 ^ nat (51 - e))"
    using xpos by (simp add: e_def)
  have n: "- 1022 \<le> ilog2 \<bar>x\<bar>" using e1 xpos by (simp add: e_def)
  have "x \<noteq> 0" using xpos by simp
  then have "fl x = x" using n q by (rule fl_exact)
  then show ?thesis by (simp add: x_def)
qed

lemma fl_int:
  assumes "\<bar>d\<bar> < 2 ^ 52"
  shows "fl (of_int d) = of_int d"
proof -
  have pos: "fl (of_int k) = of_int k" if "0 < k" "k < 2 ^ 52" for k :: int
    using fl_half_int [of "2 * k"] that by simp
  consider "d = 0" | "0 < d" | "d < 0" by linarith
  then show ?thesis
  proof cases
    case 1
    then show ?thesis by (simp add: fl_def)
  next
    case 2
    then show ?thesis using assms pos by simp
  next
    case 3
    then have "fl (of_int (- d)) = of_int (- d)" using assms by (intro pos) simp_all
    then show ?thesis by (simp add: fl_minus)
  qed
qed

text \<open>
  The quotient of two integers below \<open>2^52\<close>, computed in doubles, rounds to the same
  integer as the exact quotient. The quotient \<open>d / p\<close> is either half an integer, which
  is a double, or at least \<open>1 / (2 p)\<close> away from every integer plus one half, and the
  double next to it is less than \<open>1 / (2 p)\<close> away from it.
\<close>

lemma round_fl_div_pos:
  assumes d: "0 < d" "d < 2 ^ 52" and p: "0 < p" "p < 2 ^ 52"
  shows "py_round (fl (of_int d / of_int p)) = py_round (of_int d / of_int p)"
proof (cases "\<exists>j. (of_int d / of_int p :: rat) = of_int j / 2")
  case True
  then obtain j where j: "(of_int d / of_int p :: rat) = of_int j / 2" by blast
  have rp: "(1::rat) \<le> of_int p" using p(1) by simp
  have rd: "(0::rat) < of_int d" "(of_int d :: rat) < 2 ^ 52"
    using d by simp_all
  have "(0::rat) < of_int d / of_int p" using rd rp by simp
  then have "(0::rat) < of_int j" by (simp add: j)
  then have j0: "0 < j" by (simp only: of_int_0_less_iff)
  have "(of_int d / of_int p :: rat) \<le> of_int d / 1"
    using rd rp by (intro divide_left_mono) simp_all
  then have "(of_int j :: rat) / 2 < 2 ^ 52" using rd by (simp add: j)
  then have "(of_int j :: rat) < 2 ^ 53" by simp
  then have "j < 2 ^ 53" by (simp only: of_int_less_numeral_power_cancel_iff)
  with j0 have "fl (of_int j / 2) = of_int j / 2" by (rule fl_half_int)
  then show ?thesis by (simp only: j)
next
  case False
  define x :: rat where "x = of_int d / of_int p"
  define k where "k = py_round x"
  have rp: "(1::rat) \<le> of_int p" "(of_int p :: rat) < 2 ^ 52"
    using p by simp_all
  have rd: "(1::rat) \<le> of_int d" "(of_int d :: rat) < 2 ^ 52"
    using d by simp_all
  have xpos: "0 < x" using rp rd by (simp add: x_def)
  have near: "of_int k - 1 / 2 \<le> x" "x \<le> of_int k + 1 / 2"
    using py_round_nearest [of x] unfolding k_def by linarith+
  have xp: "x * of_int p = of_int d" using rp by (simp add: x_def)
  txt \<open>The distance to the half-integers below and above is a multiple of \<open>1 / (2 p)\<close>.\<close>
  have "x \<noteq> of_int (2 * k - 1) / 2" using False unfolding x_def by blast
  then have "of_int k - 1 / 2 < x" using near(1) by (simp add: field_simps)
  then have "(of_int k - 1 / 2) * of_int p < x * of_int p"
    using rp by (intro mult_strict_right_mono) simp_all
  then have "(of_int ((2 * k - 1) * p) :: rat) < of_int (2 * d)"
    by (simp add: xp field_simps)
  then have "(2 * k - 1) * p < 2 * d" by (simp only: of_int_less_iff)
  then have "(2 * k - 1) * p + 1 \<le> 2 * d" by simp
  then have "(of_int ((2 * k - 1) * p + 1) :: rat) \<le> of_int (2 * d)"
    by (simp only: of_int_le_iff)
  then have "(of_int k - 1 / 2) * of_int p + 1 / 2 \<le> x * of_int p"
    by (simp add: xp field_simps)
  then have below: "of_int k - 1 / 2 + 1 / (2 * of_int p) \<le> x"
    using rp by (simp add: field_simps)
  have "x \<noteq> of_int (2 * k + 1) / 2" using False unfolding x_def by blast
  then have "x < of_int k + 1 / 2" using near(2) by (simp add: field_simps)
  then have "x * of_int p < (of_int k + 1 / 2) * of_int p"
    using rp by (intro mult_strict_right_mono) simp_all
  then have "(of_int (2 * d) :: rat) < of_int ((2 * k + 1) * p)"
    by (simp add: xp field_simps)
  then have "2 * d < (2 * k + 1) * p" by (simp only: of_int_less_iff)
  then have "2 * d + 1 \<le> (2 * k + 1) * p" by simp
  then have "(of_int (2 * d + 1) :: rat) \<le> of_int ((2 * k + 1) * p)"
    by (simp only: of_int_le_iff)
  then have "x * of_int p + 1 / 2 \<le> (of_int k + 1 / 2) * of_int p"
    by (simp add: xp field_simps)
  then have above: "x + 1 / (2 * of_int p) \<le> of_int k + 1 / 2"
    using rp by (simp add: field_simps)
  txt \<open>The rounding error of the division is smaller than that.\<close>
  have b: "2 powi ilog2 x \<le> x" "x < 2 powi (ilog2 x + 1)"
    using xpos by (rule ilog2_bounds)+
  have "1 / 2 ^ 52 < 1 / (of_int p :: rat)"
    using rp by (intro divide_strict_left_mono) simp_all
  also have "1 / (of_int p :: rat) \<le> x"
    unfolding x_def using rp rd by (intro divide_right_mono) simp_all
  finally have "(2::rat) powi (- 52) < x" by (simp add: power_int_minus field_simps)
  then have "(2::rat) powi (- 52) < 2 powi (ilog2 x + 1)" using b(2) by (rule less_trans)
  then have "- 52 < ilog2 x + 1" by (rule two_powi_less)
  then have n: "- 1022 \<le> ilog2 \<bar>x\<bar>" using xpos by simp
  have "x \<noteq> 0" using xpos by simp
  then have "\<bar>fl x - x\<bar> \<le> 2 powi (ilog2 \<bar>x\<bar> - 53)" using n by (rule fl_error)
  also have "\<dots> = 2 powi ilog2 x / 2 ^ 53" using xpos by (simp add: power_int_diff)
  also have "\<dots> \<le> x / 2 ^ 53" using b(1) by (intro divide_right_mono) simp_all
  also have "\<dots> < 1 / (2 * of_int p)"
  proof -
    have "x / 2 ^ 53 = of_int d / 2 ^ 52 * (1 / (2 * of_int p))" by (simp add: x_def)
    also have "\<dots> < 1 * (1 / (2 * of_int p))"
      using rp rd by (intro mult_strict_right_mono) simp_all
    finally show ?thesis by simp
  qed
  finally have err: "\<bar>fl x - x\<bar> < 1 / (2 * of_int p)" .
  have "of_int k - 1 / 2 < fl x" using err below by linarith
  moreover have "fl x < of_int k + 1 / 2" using err above by linarith
  ultimately have "py_round (fl x) = k" by (rule py_round_unique)
  then show ?thesis by (simp only: k_def x_def)
qed

lemma round_fl_div:
  assumes d: "0 < d" "d < 2 ^ 52" and p: "p \<noteq> 0" "\<bar>p\<bar> < 2 ^ 52"
  shows "py_round (fl (of_int d / of_int p)) = py_round (of_int d / of_int p)"
proof (cases "0 < p")
  case True
  then show ?thesis using d p by (intro round_fl_div_pos) simp_all
next
  case False
  then have "0 < - p" "- p < 2 ^ 52" using p by simp_all
  with d have "py_round (fl (of_int d / of_int (- p))) = py_round (of_int d / of_int (- p))"
    by (rule round_fl_div_pos)
  then have "py_round (- fl (of_int d / of_int p)) = py_round (- (of_int d / of_int p))"
    by (simp add: fl_minus)
  then show ?thesis by (simp only: py_round_minus neg_equal_iff_equal)
qed

lemma float_limit_above: "2 ^ 52 < float_limit"
  by (simp add: float_limit_def)

lemma burst_n_exact:
  assumes d: "0 < d" "d < 2 ^ 52" and p: "p \<noteq> 0" "\<bar>p\<bar> < 2 ^ 52"
  shows "burst_n n p d = Inr (max 1 (py_round (of_int d / of_int p)))"
proof -
  have "\<bar>d\<bar> < 2 ^ 52" using d by simp
  then have fd: "py_float d = Inr (of_int d)"
    using float_limit_above by (simp add: py_float_def fl_int)
  have fp: "py_float p = Inr (of_int p)"
    using p(2) float_limit_above by (simp add: py_float_def fl_int)
  show ?thesis
    using d(1) p(1) by (simp add: burst_n_def fd fp round_fl_div [OF d p])
qed

subsection \<open>Strings and indices\<close>

lemma of_char_lower:
  "(of_char (lower_char c) :: nat) =
     (if (65 \<le> (of_char c :: nat) \<and> (of_char c :: nat) \<le> 90)
         \<or> (192 \<le> (of_char c :: nat) \<and> (of_char c :: nat) \<le> 222 \<and> (of_char c :: nat) \<noteq> 215)
      then of_char c + 32 else of_char c)"
  by (simp add: lower_char_def Let_def)

lemma lower_char_eq_iff:
  assumes "(of_char x :: nat) = u + 32" and "65 \<le> u" and "u \<le> 90" and "(of_char y :: nat) = u"
  shows "lower_char c = x \<longleftrightarrow> c = x \<or> c = y"
proof -
  have "lower_char c = x \<longleftrightarrow> (of_char (lower_char c) :: nat) = of_char x"
    by (simp only: of_char_eq_iff)
  also have "\<dots> \<longleftrightarrow> (of_char c :: nat) = u + 32 \<or> (of_char c :: nat) = u"
    using assms(1,2,3) by (simp add: of_char_lower) arith
  also have "\<dots> \<longleftrightarrow> (of_char c :: nat) = of_char x \<or> (of_char c :: nat) = of_char y"
    using assms(1,4) by simp
  also have "\<dots> \<longleftrightarrow> c = x \<or> c = y"
    by (simp only: of_char_eq_iff)
  finally show ?thesis .
qed

lemma map_eq_triple:
  "map f s = [x, y, z] \<longleftrightarrow> (\<exists>a b c. s = [a, b, c] \<and> f a = x \<and> f b = y \<and> f c = z)"
proof (cases s)
  case Nil
  then show ?thesis by simp
next
  case s1: (Cons a s')
  show ?thesis
  proof (cases s')
    case Nil
    with s1 show ?thesis by simp
  next
    case s2: (Cons b s'')
    show ?thesis
    proof (cases s'')
      case Nil
      with s1 s2 show ?thesis by simp
    next
      case (Cons c s''')
      with s1 s2 show ?thesis by (cases s''') auto
    qed
  qed
qed

lemma lower_jpg_iff:
  "lower fmt = ''jpg'' \<longleftrightarrow>
     (\<exists>a b c. fmt = [a, b, c] \<and> (a = CHR ''j'' \<or> a = CHR ''J'')
        \<and> (b = CHR ''p'' \<or> b = CHR ''P'') \<and> (c = CHR ''g'' \<or> c = CHR ''G''))"
proof -
  have j: "lower_char c = CHR ''j'' \<longleftrightarrow> c = CHR ''j'' \<or> c = CHR ''J''" for c
    by (rule lower_char_eq_iff[where u = 74]) simp_all
  have p: "lower_char c = CHR ''p'' \<longleftrightarrow> c = CHR ''p'' \<or> c = CHR ''P''" for c
    by (rule lower_char_eq_iff[where u = 80]) simp_all
  have g: "lower_char c = CHR ''g'' \<longleftrightarrow> c = CHR ''g'' \<or> c = CHR ''G''" for c
    by (rule lower_char_eq_iff[where u = 71]) simp_all
  show ?thesis
    unfolding lower_def map_eq_triple j p g ..
qed




















lemma indexed_suffix: "indexed d ext i p \<Longrightarrow> suffix ext (snd p)"
  unfolding indexed_def using suffix_appendD[of "''_'' @ zpad 2 i" ext "snd p"] by simp

lemma indexed_ext: "list_all2 (indexed d ext) idx ps \<Longrightarrow> list_all (\<lambda>p. suffix ext (snd p)) ps"
  by (induction rule: list_all2_induct) (auto dest: indexed_suffix)

subsection \<open>The loop of the burst\<close>

lemma write_file_cases:
  "write_file E p b w = (r, w') \<Longrightarrow>
     fs_dirs w' = fs_dirs w \<and> CAM_cap w' = CAM_cap w \<and> mono w' = mono w
     \<and> wall w' = wall w \<and> trace w' = trace w
     \<and> (r = None \<longrightarrow> fs_files w' = fs_files w @ [(p, b)])"
  by (auto simp: write_file_def split: option.splits)

lemma grab_frame_fs:
  "grab_frame w = (r, w') \<Longrightarrow> fs_dirs w' = fs_dirs w \<and> fs_files w' = fs_files w"
  by (auto simp: grab_frame_def cap_read_def Let_def split: option.splits list.splits if_splits prod.splits)

lemma burst_name_indexed: "indexed out_dir ext i (out_dir, burst_name E w i ext)"
  by (simp add: indexed_def burst_name_def suffix_def)

lemma burst_frame_shape:
  assumes "burst_frame E t0 ps fmt ext out_dir i paths w = (fin, w')"
  shows "fs_dirs w' = fs_dirs w"
    and "fin = Ran q \<Longrightarrow> \<exists>p. q = paths @ [p] \<and> indexed out_dir ext i p
            \<and> map fst (fs_files w') = map fst (fs_files w) @ [p]"
    and "fin = Returned r \<Longrightarrow> (\<exists>msg. r = FailedPaths msg paths) \<and> fs_files w' = fs_files w"
  using assms
  by (auto simp: burst_frame_def Let_def burst_name_indexed
      split: prod.splits if_splits option.splits sum.splits
      dest!: write_file_cases grab_frame_fs simp: sleep_def)


lemma burst_frames_shape:
  assumes "burst_frames E t0 ps fmt ext out_dir idx paths w = (fin, w')"
  shows "fs_dirs w' = fs_dirs w
    \<and> (\<forall>q. fin = Ran q \<longrightarrow> (\<exists>new. q = paths @ new \<and> list_all2 (indexed out_dir ext) idx new
            \<and> map fst (fs_files w') = map fst (fs_files w) @ new))
    \<and> (\<forall>r. fin = Returned r \<longrightarrow> (\<exists>msg new. r = FailedPaths msg (paths @ new)
            \<and> length new < length idx
            \<and> list_all2 (indexed out_dir ext) (take (length new) idx) new
            \<and> map fst (fs_files w') = map fst (fs_files w) @ new))"
  using assms
proof (induction idx arbitrary: paths w)
  case Nil
  then show ?case by auto
next
  case (Cons i rest)
  obtain f1 w1 where step: "burst_frame E t0 ps fmt ext out_dir i paths w = (f1, w1)"
    by (cases "burst_frame E t0 ps fmt ext out_dir i paths w")
  show ?case
  proof (cases f1)
    case (Raised e)
    with step Cons.prems burst_frame_shape(1)[OF step] show ?thesis by auto
  next
    case (Returned r)
    with step Cons.prems burst_frame_shape(1)[OF step] burst_frame_shape(3)[OF step Returned]
    show ?thesis by auto
  next
    case (Ran q)
    from burst_frame_shape(2)[OF step Ran] obtain p where
      p: "q = paths @ [p]" "indexed out_dir ext i p"
         "map fst (fs_files w1) = map fst (fs_files w) @ [p]" by blast
    from step Ran Cons.prems have rest: "burst_frames E t0 ps fmt ext out_dir rest q w1 = (fin, w')"
      by simp
    note IH = Cons.IH[OF rest]
    have d: "fs_dirs w' = fs_dirs w" using IH burst_frame_shape(1)[OF step] by simp
    have a: "\<exists>new. q' = paths @ new \<and> list_all2 (indexed out_dir ext) (i # rest) new
            \<and> map fst (fs_files w') = map fst (fs_files w) @ new" if "fin = Ran q'" for q'
    proof -
      from IH that obtain new where "q' = q @ new" "list_all2 (indexed out_dir ext) rest new"
        "map fst (fs_files w') = map fst (fs_files w1) @ new" by blast
      with p show ?thesis by (intro exI[of _ "p # new"]) simp
    qed
    have b: "\<exists>msg new. r = FailedPaths msg (paths @ new)
            \<and> length new < length (i # rest)
            \<and> list_all2 (indexed out_dir ext) (take (length new) (i # rest)) new
            \<and> map fst (fs_files w') = map fst (fs_files w) @ new" if "fin = Returned r" for r
    proof -
      from IH that obtain msg new where "r = FailedPaths msg (q @ new)" "length new < length rest"
        "list_all2 (indexed out_dir ext) (take (length new) rest) new"
        "map fst (fs_files w') = map fst (fs_files w1) @ new" by blast
      with p show ?thesis by (intro exI[of _ msg] exI[of _ "p # new"]) simp
    qed
    from d a b show ?thesis by blast
  qed
qed


lemma burst_frame_good:
  assumes "CAM_cap w = Some c" and "isOpened c" and "pending c = g # gs"
    and "good E fmt g" and "fs_sound E"
  shows "\<exists>p w'. burst_frame E t0 ps fmt ext out_dir i paths w = (Ran (paths @ [p]), w')
           \<and> CAM_cap w' = Some (c\<lparr>pending := gs\<rparr>)"
  using assms
  by (auto simp: burst_frame_def grab_frame_def cap_read_def sleep_def encode_image_def
      write_file_def good_def fs_sound_def Let_def split: option.splits encoding.splits)

lemma burst_frames_good:
  assumes "CAM_cap w = Some c" and "isOpened c" and "pending c = gs @ rest"
    and "length gs = length idx" and "\<forall>g\<in>set gs. good E fmt g" and "fs_sound E"
  shows "\<exists>q w'. burst_frames E t0 ps fmt ext out_dir idx paths w = (Ran q, w')
           \<and> CAM_cap w' = Some (c\<lparr>pending := rest\<rparr>)"
  using assms
proof (induction idx arbitrary: gs c paths w)
  case Nil
  then show ?case by simp
next
  case (Cons i idx)
  then obtain g gs' where gs: "gs = g # gs'" by (cases gs) auto
  with Cons.prems have "pending c = g # (gs' @ rest)" "good E fmt g" by auto
  from burst_frame_good[OF Cons.prems(1,2) this Cons.prems(6)] obtain p w1 where
    step: "burst_frame E t0 ps fmt ext out_dir i paths w = (Ran (paths @ [p]), w1)"
    and cap1: "CAM_cap w1 = Some (c\<lparr>pending := gs' @ rest\<rparr>)" by blast
  have "\<exists>q w'. burst_frames E t0 ps fmt ext out_dir idx (paths @ [p]) w1 = (Ran q, w')
           \<and> CAM_cap w' = Some (c\<lparr>pending := gs' @ rest\<rparr>\<lparr>pending := rest\<rparr>)"
    using Cons.prems gs by (intro Cons.IH[OF cap1, of gs']) auto
  with step show ?case by simp
qed

lemma cap_read_cap:
  "CAM_cap w = Some c \<Longrightarrow>
     CAM_cap (snd (cap_read w)) = Some (c\<lparr>pending := tl (pending c)\<rparr>)
     \<and> fs_dirs (snd (cap_read w)) = fs_dirs w \<and> fs_files (snd (cap_read w)) = fs_files w
     \<and> CAM_props (snd (cap_read w)) = CAM_props w"
  by (cases c) (auto simp: cap_read_def split: list.splits)

lemma warm_cap:
  "CAM_cap w = Some c \<Longrightarrow>
     CAM_cap (warm k w) = Some (c\<lparr>pending := drop k (pending c)\<rparr>)
     \<and> fs_dirs (warm k w) = fs_dirs w \<and> fs_files (warm k w) = fs_files w
     \<and> CAM_props (warm k w) = CAM_props w"
proof (induction k arbitrary: w c)
  case 0
  then show ?case by simp
next
  case (Suc k)
  from cap_read_cap[OF Suc.prems] Suc.IH[of "snd (cap_read w)" "c\<lparr>pending := tl (pending c)\<rparr>"]
  show ?case by (simp add: drop_Suc)
qed

lemma cap_set_keeps: "pending (cap_set p v c) = pending c \<and> isOpened (cap_set p v c) = isOpened c"
  by (simp add: cap_set_def split: option.splits)

lemma burst_warm_cap:
  "\<exists>c'. CAM_cap (burst_warm cap warmup w) = Some c' \<and> isOpened c' = isOpened cap
        \<and> pending c' = drop (nat (max 0 warmup)) (pending cap)"
  "fs_dirs (burst_warm cap warmup w) = fs_dirs w"
  "fs_files (burst_warm cap warmup w) = fs_files w"
  "CAM_props (burst_warm cap warmup w) = CAM_props w"
  using warm_cap[of "w\<lparr>CAM_cap := Some (cap_set CAP_PROP_BUFFERSIZE 1 cap)\<rparr>"
      "cap_set CAP_PROP_BUFFERSIZE 1 cap" "nat (max 0 warmup)"]
  by (simp_all add: burst_warm_def cap_set_keeps)

lemma mkdir_ok:
  "mkdir_fault E d = None \<Longrightarrow>
     \<exists>w'. mkdir E d w = Inr w' \<and> CAM_cap w' = CAM_cap w \<and> CAM_props w' = CAM_props w
          \<and> fs_files w' = fs_files w \<and> mono w' = mono w \<and> trace w' = trace w"
  by (simp add: mkdir_def)


lemma burst_run_ok:
  assumes "CAM_cap w = Some cap" and "isOpened cap"
    and "burst_n n period_ms duration_ms = Inr k"
    and "nat (max 0 warmup) + nat (max 1 k) \<le> length (pending cap)"
    and "\<forall>g\<in>set (take (nat (max 1 k)) (drop (nat (max 0 warmup)) (pending cap))). good E fmt g"
    and "mkdir_fault E (expanduser E save_dir) = None" and "fs_sound E"
  shows "\<exists>ps w'.
           vision_burst E n period_ms save_dir fmt warmup duration_ms w =
             (Inr (Bursted ps (mime_of (ext_of fmt)) (props_width w) (props_height w)
                     (nat (max 1 k)) period_ms duration_ms (expanduser E save_dir)), w')
         \<and> length ps = nat (max 1 k)
         \<and> list_all2 (indexed (expanduser E save_dir) (ext_of fmt)) [0..<nat (max 1 k)] ps
         \<and> map fst (fs_files w') = map fst (fs_files w) @ ps"
proof -
  define N where "N = nat (max 1 k)"
  define W where "W = nat (max 0 warmup)"
  define w2 where "w2 = burst_warm cap warmup w"
  define out_dir where "out_dir = expanduser E save_dir"
  from burst_warm_cap(1)[of cap warmup w] obtain c2 where
    c2: "CAM_cap w2 = Some c2" "isOpened c2" "pending c2 = drop W (pending cap)"
    using assms(2) by (auto simp: w2_def W_def)
  from mkdir_ok[OF assms(6), of w2] obtain w3 where
    w3: "mkdir E out_dir w2 = Inr w3" "CAM_cap w3 = CAM_cap w2" "CAM_props w3 = CAM_props w2"
        "fs_files w3 = fs_files w2"
    by (auto simp: out_dir_def)
  have split: "pending c2 = take N (pending c2) @ drop N (pending c2)" by simp
  have len: "length (take N (pending c2)) = length [0..<N]"
    using assms(4) c2(3) by (simp add: N_def W_def)
  have allgood: "\<forall>g\<in>set (take N (pending c2)). good E fmt g"
    using assms(5) c2(3) by (simp add: N_def W_def)
  from burst_frames_good[of w3 c2 "take N (pending c2)" "drop N (pending c2)" "[0..<N]" E fmt
      "mono w3" "period_s period_ms" "ext_of fmt" out_dir "[]", OF _ c2(2) split len allgood assms(7)]
  obtain q w4 where run:
    "burst_frames E (mono w3) (period_s period_ms) fmt (ext_of fmt) out_dir [0..<N] [] w3 = (Ran q, w4)"
    using w3(2) c2(1) by auto
  from burst_frames_shape[OF run] obtain new where
    new: "q = [] @ new" "list_all2 (indexed out_dir (ext_of fmt)) [0..<N] new"
         "map fst (fs_files w4) = map fst (fs_files w3) @ new" by blast
  have lenq: "length q = N" using new(1,2) by (auto dest: list_all2_lengthD)
  have files: "fs_files w3 = fs_files w"
    using w3(4) burst_warm_cap(3)[of cap warmup w] by (simp add: w2_def)
  have pr: "props_width w3 = props_width w" "props_height w3 = props_height w"
    using w3(3) burst_warm_cap(4)[of cap warmup w] by (simp_all add: w2_def props_width_def props_height_def)
  have "vision_burst E n period_ms save_dir fmt warmup duration_ms w =
          (Inr (Bursted q (mime_of (ext_of fmt)) (props_width w) (props_height w)
                     N period_ms duration_ms out_dir), w4)"
    using assms(1,2,3) w3(1) run lenq pr
    by (simp add: vision_burst_def Let_def w2_def[symmetric] out_dir_def[symmetric] N_def[symmetric])
  with new lenq files show ?thesis
    unfolding N_def[symmetric] out_dir_def[symmetric] by auto
qed

subsection \<open>The schedule of the burst\<close>

lemma target_agree:
  assumes "t0 \<le> now"
  shows "(now < t0 + of_nat i * period_s pm) = (now < t0 + of_nat i * (of_int pm / 1000))"
    and "now < t0 + of_nat i * period_s pm \<Longrightarrow>
           t0 + of_nat i * period_s pm = t0 + of_nat i * (of_int pm / 1000)"
proof -
  show "(now < t0 + of_nat i * period_s pm) = (now < t0 + of_nat i * (of_int pm / 1000))"
  proof (cases "0 \<le> pm")
    case True
    then show ?thesis by (simp add: period_s_def max_def)
  next
    case False
    then have "(of_nat i :: rat) * (of_int pm / 1000) \<le> 0"
      by (simp add: mult_nonneg_nonpos)
    with False assms show ?thesis by (simp add: period_s_def max_def)
  qed
  show "t0 + of_nat i * period_s pm = t0 + of_nat i * (of_int pm / 1000)"
    if "now < t0 + of_nat i * period_s pm"
  proof (cases "0 \<le> pm")
    case True
    then show ?thesis by (simp add: period_s_def max_def)
  next
    case False
    with that assms show ?thesis by (simp add: period_s_def max_def)
  qed
qed

lemma burst_frame_trace:
  assumes "CAM_cap w = Some c" and "isOpened c"
    and "burst_frame E t0 ps fmt ext out_dir i paths w = (fin, w')"
  shows "trace w' = trace w
           @ (if mono w < t0 + of_nat i * ps then [Slept (t0 + of_nat i * ps - mono w)] else [])
           @ [ReadAt (if mono w < t0 + of_nat i * ps then t0 + of_nat i * ps else mono w)]"
    and "mono w' = (if mono w < t0 + of_nat i * ps then t0 + of_nat i * ps else mono w)
           + (case pending c of [] \<Rightarrow> 0 | g # gs \<Rightarrow> took g)"
    and "\<exists>c'. CAM_cap w' = Some c' \<and> isOpened c' \<and> pending c' = tl (pending c)"
  using assms
  by (auto simp: burst_frame_def grab_frame_def cap_read_def sleep_def encode_image_def
      write_file_def Let_def split: option.splits list.splits if_splits encoding.splits)

lemma burst_frames_trace:
  assumes "CAM_cap w = Some c" and "isOpened c" and "\<forall>g\<in>set (pending c). 0 \<le> took g"
    and "t0 \<le> mono w"
    and "burst_frames E t0 (period_s pm) fmt ext out_dir idx paths w = (fin, w')"
  shows "\<exists>m\<le>length idx.
           trace w' = trace w @ spec_trace t0 pm (mono w) (take m idx) (map took (pending c))
           \<and> (\<forall>q. fin = Ran q \<longrightarrow> m = length idx)"
  using assms
proof (induction idx arbitrary: w c paths)
  case Nil
  then show ?case by simp
next
  case (Cons i rest)
  obtain f1 w1 where step: "burst_frame E t0 (period_s pm) fmt ext out_dir i paths w = (f1, w1)"
    by (cases "burst_frame E t0 (period_s pm) fmt ext out_dir i paths w")
  define start where
    "start = (if mono w < t0 + of_nat i * (of_int pm / 1000)
              then t0 + of_nat i * (of_int pm / 1000) else mono w)"
  define l where "l = (case pending c of [] \<Rightarrow> 0 | g # gs \<Rightarrow> took g)"
  define head where
    "head = (if mono w < t0 + of_nat i * (of_int pm / 1000)
             then [Slept (t0 + of_nat i * (of_int pm / 1000) - mono w)] else [])
            @ [ReadAt start]"
  note ta = target_agree[OF Cons.prems(4), of i pm]
  have tr1: "trace w1 = trace w @ head"
    using burst_frame_trace(1)[OF Cons.prems(1,2) step] ta
    by (auto simp: head_def start_def)
  have m1: "mono w1 = start + l"
    using burst_frame_trace(2)[OF Cons.prems(1,2) step] ta
    by (auto simp: start_def l_def)
  from burst_frame_trace(3)[OF Cons.prems(1,2) step] obtain c1 where
    c1: "CAM_cap w1 = Some c1" "isOpened c1" "pending c1 = tl (pending c)" by blast
  have l0: "0 \<le> l" using Cons.prems(3) by (auto simp: l_def split: list.splits)
  have s0: "t0 \<le> start" using Cons.prems(4) by (simp add: start_def)
  have lat: "(case map took (pending c) of [] \<Rightarrow> 0 | x # xs \<Rightarrow> x) = l"
    by (simp add: l_def split: list.splits)
  have one: "spec_trace t0 pm (mono w) (i # xs) (map took (pending c)) =
               head @ spec_trace t0 pm (mono w1) xs (map took (pending c1))" for xs
    by (simp add: Let_def head_def start_def m1 c1(3) lat map_tl)
  show ?case
  proof (cases f1)
    case (Ran q)
    with step Cons.prems(5) have rest:
      "burst_frames E t0 (period_s pm) fmt ext out_dir rest q w1 = (fin, w')" by simp
    have "\<forall>g\<in>set (pending c1). 0 \<le> took g"
      using Cons.prems(3) c1(3) by (cases "pending c") auto
    moreover have "t0 \<le> mono w1" using m1 l0 s0 by simp
    ultimately obtain m where m: "m \<le> length rest"
      "trace w' = trace w1 @ spec_trace t0 pm (mono w1) (take m rest) (map took (pending c1))"
      "\<forall>q. fin = Ran q \<longrightarrow> m = length rest"
      using Cons.IH[OF c1(1,2) _ _ rest] by blast
    show ?thesis
      using m tr1 one[of "take m rest"] by (intro exI[of _ "Suc m"]) simp
  next
    case (Raised e)
    with step Cons.prems(5) have "w' = w1" "fin = Raised e" by simp_all
    then show ?thesis
      using tr1 one[of "[]"] by (intro exI[of _ "Suc 0"]) simp
  next
    case (Returned r)
    with step Cons.prems(5) have "w' = w1" "fin = Returned r" by simp_all
    then show ?thesis
      using tr1 one[of "[]"] by (intro exI[of _ "Suc 0"]) simp
  qed
qed

subsection \<open>Files, formats and backends\<close>

lemma mkdir_keeps:
  "mkdir E d w = Inr w' \<Longrightarrow>
     CAM_cap w' = CAM_cap w \<and> CAM_props w' = CAM_props w \<and> fs_files w' = fs_files w
     \<and> mono w' = mono w \<and> wall w' = wall w \<and> trace w' = trace w"
  by (auto simp: mkdir_def split: option.splits if_splits)

lemma ext_mime:
  "ext_of fmt = (if lower fmt = ''jpg'' then ''.jpg'' else ''.png'')"
  "mime_of (ext_of fmt) = (if lower fmt = ''jpg'' then ''image/jpeg'' else ''image/png'')"
  by (simp_all add: ext_of_def mime_of_def)

lemma capture_shape:
  assumes "vision_capture E save_dir fmt w = (Inr (Captured p m wd ht), w')"
  shows "m = mime_of (ext_of fmt) \<and> suffix (ext_of fmt) (snd p)
       \<and> map fst (fs_files w') = map fst (fs_files w) @ [p]"
proof -
  obtain b fr msg w1 where g: "grab_frame w = ((b, fr, msg), w1)"
    by (metis prod_cases3 surj_pair)
  from assms g have b: "b"
    by (auto simp: vision_capture_def Let_def split: if_splits)
  with assms g obtain b2 buf x where e: "encode_image E (the fr) fmt = Inr (b2, buf, x)"
    by (auto simp: vision_capture_def Let_def split: sum.splits)
  from assms g e b have bb: "b" "b2"
    by (auto simp: vision_capture_def Let_def split: if_splits)
  from e bb(2) have x: "x = ext_of fmt"
    by (auto simp: encode_image_def Let_def split: encoding.splits)
  from assms g e bb obtain w2 where
    m2: "mkdir E (expanduser E save_dir) w1 = Inr w2"
    by (auto simp: vision_capture_def Let_def split: sum.splits)
  obtain r w3 where
    wr: "write_file E (expanduser E save_dir, timestamp_name E ''frame'' x w2) buf w2 = (r, w3)"
    by (metis surj_pair)
  from assms g e bb m2 wr have res: "r = None"
    "p = (expanduser E save_dir, timestamp_name E ''frame'' x w2)" "m = mime_of x" "w' = w3"
    by (auto simp: vision_capture_def Let_def split: option.splits)
  from write_file_cases[OF wr] res(1) have "fs_files w3 = fs_files w2 @ [(p, buf)]"
    by (simp add: res(2))
  moreover have "fs_files w2 = fs_files w" using mkdir_keeps[OF m2] grab_frame_fs[OF g] by simp
  moreover have "suffix x (snd p)" by (simp add: res(2) timestamp_name_def suffix_def)
  ultimately show ?thesis using res x by simp
qed

lemma burst_shape:
  assumes "vision_burst E n period_ms save_dir fmt warmup duration_ms w = (Inr r, w')"
  shows "list_all (\<lambda>p. suffix (ext_of fmt) (snd p)) (result_paths (Inr r))
       \<and> map fst (fs_files w') = map fst (fs_files w) @ result_paths (Inr r)
       \<and> (\<forall>ps m wd ht cnt pm dm d. r = Bursted ps m wd ht cnt pm dm d \<longrightarrow> m = mime_of (ext_of fmt))"
proof (cases "\<exists>cap. CAM_cap w = Some cap \<and> isOpened cap")
  case False
  with assms have "r = Failed ''Camera not open''" "w' = w"
    by (auto simp: vision_burst_def split: option.splits if_splits)
  then show ?thesis by simp
next
  case True
  then obtain cap where cap: "CAM_cap w = Some cap" "isOpened cap" by blast
  from assms cap obtain k where k: "burst_n n period_ms duration_ms = Inr k"
    by (auto simp: vision_burst_def split: sum.splits)
  define w2 where "w2 = burst_warm cap warmup w"
  define out_dir where "out_dir = expanduser E save_dir"
  from assms cap k obtain w3 where w3: "mkdir E out_dir w2 = Inr w3"
    by (auto simp: vision_burst_def Let_def w2_def out_dir_def split: sum.splits)
  obtain fin w4 where loop:
    "burst_frames E (mono w3) (period_s period_ms) fmt (ext_of fmt) out_dir [0..<nat (max 1 k)] [] w3
       = (fin, w4)"
    by (metis surj_pair)
  have res: "(Inr r, w') =
         (case fin of Raised e \<Rightarrow> Inl e | Returned r \<Rightarrow> Inr r
          | Ran paths \<Rightarrow> Inr (Bursted paths (mime_of (ext_of fmt)) (props_width w3)
               (props_height w3) (length paths) period_ms duration_ms out_dir), w4)"
    using assms cap k w3 loop
    by (simp add: vision_burst_def Let_def w2_def[symmetric] out_dir_def[symmetric]
        split: loop_end.splits)
  have files: "fs_files w3 = fs_files w"
    using mkdir_keeps[OF w3] burst_warm_cap(3)[of cap warmup w] by (simp add: w2_def)
  note sh = burst_frames_shape[OF loop]
  show ?thesis
  proof (cases fin)
    case (Raised e)
    with res show ?thesis by simp
  next
    case (Returned r')
    with sh obtain msg new where new: "r' = FailedPaths msg ([] @ new)"
      "list_all2 (indexed out_dir (ext_of fmt)) (take (length new) [0..<nat (max 1 k)]) new"
      "map fst (fs_files w4) = map fst (fs_files w3) @ new" by blast
    with Returned res files indexed_ext[OF new(2)] show ?thesis by simp
  next
    case (Ran q)
    with sh obtain new where new: "q = [] @ new"
      "list_all2 (indexed out_dir (ext_of fmt)) [0..<nat (max 1 k)] new"
      "map fst (fs_files w4) = map fst (fs_files w3) @ new" by blast
    with Ran res files indexed_ext[OF new(2)] show ?thesis by simp
  qed
qed

lemma backend_auto: "backend_key ''auto'' = ''auto''"
  by code_simp

lemma api_pref_unknown:
  "be \<notin> {''auto'', ''avfoundation'', ''msmf'', ''dshow'', ''v4l2''} \<Longrightarrow> api_pref E be = None"
  by (simp add: api_pref_def BACKENDS_def)

lemma api_pref_auto: "api_pref E ''auto'' = None"
  by (simp add: api_pref_def BACKENDS_def)

lemma capture_mkdir_fault:
  assumes "grab_frame w = ((True, Some fr, msg), w1)" and "imencode E (ext_of fmt) fr = Encoded buf"
    and "mkdir_fault E (expanduser E save_dir) = Some m"
  shows "vision_capture E save_dir fmt w = (Inl (OSError m), w1)"
  using assms by (simp add: vision_capture_def encode_image_def Let_def mkdir_def)

lemma capture_write_fault:
  assumes "grab_frame w = ((True, Some fr, msg), w1)" and "imencode E (ext_of fmt) fr = Encoded buf"
    and "mkdir_fault E (expanduser E save_dir) = None"
    and "p = (expanduser E save_dir, timestamp_name E ''frame'' (ext_of fmt) w1)"
    and "open_fault E p = Some m \<or> open_fault E p = None \<and> write_fault E p = Some m"
  shows "fst (vision_capture E save_dir fmt w) = Inr (Failed (''Failed to write file: '' @ m))"
  using assms
  by (auto simp: vision_capture_def encode_image_def Let_def mkdir_def write_file_def
      exn_text_def timestamp_name_def)

lemma burst_mkdir_fault:
  assumes "CAM_cap w = Some cap" and "isOpened cap" and "burst_n n period_ms duration_ms = Inr k"
    and "mkdir_fault E (expanduser E save_dir) = Some m"
  shows "vision_burst E n period_ms save_dir fmt warmup duration_ms w =
           (Inl (OSError m), burst_warm cap warmup w)"
  using assms by (simp add: vision_burst_def Let_def mkdir_def)

subsection \<open>The test bench\<close>

lemma bench_fs_sound: "fs_sound bench_env"
  by (simp add: fs_sound_def bench_env_def)

lemma bench_good: "g \<in> set (pending (bench_cam k)) \<Longrightarrow> good bench_env fmt g"
  by (auto simp: bench_cam_def good_def bench_env_def)

lemma bench_pending_length: "length (pending (bench_cam k)) = k"
  by (simp add: bench_cam_def)

lemma bench_open: "CAM_cap (open_world k) = Some (bench_cam k)" "isOpened (bench_cam k)"
  "fs_files (open_world k) = []" "trace (open_world k) = []" "mono (open_world k) = 5"
  by (simp_all add: open_world_def closed_world_def bench_cam_def)

lemma bench_dir: "mkdir_fault bench_env d = None" "expanduser bench_env d = d"
  by (simp_all add: bench_env_def)

section \<open>The claims\<close>

subsection \<open>Filesystem failures\<close>

text \<open>
  C1 as stated fails: neither tool catches a failure of the directory creation of lines 199
  and 247. A capture into a directory that cannot be created raises.
\<close>

theorem capture_mkdir_raises:
  "fst (vision_capture locked_env ''/srv/frames'' ''jpg'' (open_world 1)) =
     Inl (OSError ''Permission denied'')"
  by code_simp

text \<open>
  C1, amended. In a capture that has its frame encoded, a failure to open or to write the
  file is caught and returned as the dictionary \<open>ok = False\<close> with the error
  "Failed to write file: ..." and the reason. A failure to create the directory is caught
  by neither tool: capture and burst raise it to the caller.
\<close>

theorem filesystem_failures:
  "(grab_frame w = ((True, Some fr, msg), w1) \<and> imencode E (ext_of fmt) fr = Encoded buf
      \<and> mkdir_fault E (expanduser E save_dir) = None
      \<and> p = (expanduser E save_dir, timestamp_name E ''frame'' (ext_of fmt) w1)
      \<and> (open_fault E p = Some m \<or> open_fault E p = None \<and> write_fault E p = Some m)
    \<longrightarrow> fst (vision_capture E save_dir fmt w) = Inr (Failed (''Failed to write file: '' @ m)))
   \<and> (grab_frame w = ((True, Some fr, msg), w1) \<and> imencode E (ext_of fmt) fr = Encoded buf
      \<and> mkdir_fault E (expanduser E save_dir) = Some m
    \<longrightarrow> vision_capture E save_dir fmt w = (Inl (OSError m), w1))
   \<and> (CAM_cap w = Some cap \<and> isOpened cap \<and> burst_n n period_ms duration_ms = Inr k
      \<and> mkdir_fault E (expanduser E save_dir) = Some m
    \<longrightarrow> vision_burst E n period_ms save_dir fmt warmup duration_ms w =
          (Inl (OSError m), burst_warm cap warmup w))"
  using capture_write_fault[of w fr msg w1 E fmt buf save_dir p m]
    capture_mkdir_fault[of w fr msg w1 E fmt buf save_dir m]
    burst_mkdir_fault[of w cap n period_ms duration_ms k E save_dir m fmt warmup]
  by blast

theorem filesystem_failures_witness:
  "fst (vision_capture full_env ''/srv/frames'' ''jpg'' (open_world 1)) =
     Inr (Failed ''Failed to write file: No space left on device'')
   \<and> vision_burst locked_env 8 150 ''/srv/frames'' ''jpg'' 3 0 (open_world 8) =
     (Inl (OSError ''Permission denied''), burst_warm (bench_cam 8) 3 (open_world 8))"
proof -
  have g: "fst (grab_frame (open_world 1)) = (True, Some [0], ''ok'')" by code_simp
  then obtain w1 where g': "grab_frame (open_world 1) = ((True, Some [0], ''ok''), w1)"
    by (metis prod.collapse)
  have e: "imencode full_env (ext_of ''jpg'') [0] = Encoded [0]"
    "mkdir_fault full_env (expanduser full_env ''/srv/frames'') = None"
    "open_fault full_env q = None" "write_fault full_env q = Some ''No space left on device''"
    "mkdir_fault locked_env (expanduser locked_env ''/srv/frames'') = Some ''Permission denied''"
    for q
    by (simp_all add: full_env_def locked_env_def bench_env_def)
  from filesystem_failures[of "open_world 1" "[0]" "''ok''" w1
      full_env "''jpg''" "[0]" "''/srv/frames''"
      "(expanduser full_env ''/srv/frames'',
        timestamp_name full_env ''frame'' (ext_of ''jpg'') w1)"
      "''No space left on device''"] g' e(1-4)
  have one: "fst (vision_capture full_env ''/srv/frames'' ''jpg'' (open_world 1)) =
     Inr (Failed ''Failed to write file: No space left on device'')"
    by simp
  from filesystem_failures[where E = locked_env and w = "open_world 8" and cap = "bench_cam 8"
      and n = 8 and period_ms = 150 and duration_ms = 0 and k = 8 and save_dir = "''/srv/frames''"
      and m = "''Permission denied''" and fmt = "''jpg''" and warmup = 3] e(5)
  have two: "vision_burst locked_env 8 150 ''/srv/frames'' ''jpg'' 3 0 (open_world 8) =
     (Inl (OSError ''Permission denied''), burst_warm (bench_cam 8) 3 (open_world 8))"
    by (simp add: bench_open burst_n_def)
  from one two show ?thesis by simp
qed

subsection \<open>A burst that fails on the way\<close>



subsection \<open>A burst that succeeds\<close>




subsection \<open>The frame count\<close>

text \<open>
  C4 as stated fails where the numbers are too large for doubles: line 236 converts \<open>duration_ms\<close> and
  \<open>period_ms\<close> to doubles and divides the doubles. With \<open>duration_ms = 3 * 2^51 + 1\<close>
  and \<open>period_ms = 2^52 + 1\<close> the quotient is less than \<open>3 / 2\<close> and rounds to 1, the
  double of the quotient is \<open>1.5\<close> and rounds to 2, and 2 is the count of the code. With
  \<open>duration_ms = period_ms = 2^1024\<close> the quotient is 1, and the code has no count at all:
  \<^verbatim>\<open>float(duration_ms)\<close> raises \<^verbatim>\<open>OverflowError\<close>, and the burst ends there, before
  the first read.
\<close>

theorem burst_count_beyond_doubles:
  "burst_n 8 4503599627370497 6755399441055745 = Inr 2
   \<and> max 1 (py_round (6755399441055745 / 4503599627370497)) = 1
   \<and> vision_burst bench_env 8 (2 ^ 1024) ''.'' ''jpg'' 0 (2 ^ 1024) (open_world 8) =
       (Inl OverflowError, open_world 8)
   \<and> max 1 (py_round (of_int (2 ^ 1024) / of_int (2 ^ 1024))) = 1"
proof -
  have "burst_n 8 4503599627370497 6755399441055745 = Inr 2" by code_simp
  moreover have "max 1 (py_round (6755399441055745 / 4503599627370497)) = 1" by code_simp
  moreover have "burst_n 8 (2 ^ 1024) (2 ^ 1024) = Inl OverflowError"
    by (simp add: burst_n_def py_float_def float_limit_def)
  then have "vision_burst bench_env 8 (2 ^ 1024) ''.'' ''jpg'' 0 (2 ^ 1024) (open_world 8) =
       (Inl OverflowError, open_world 8)"
    by (simp add: vision_burst_def bench_open)
  moreover have "max 1 (py_round (of_int (2 ^ 1024) / of_int (2 ^ 1024))) = 1"
    using py_round_of_int [of 1] by simp
  ultimately show ?thesis by simp
qed

text \<open>
  C4, amended. Below \<open>2^52\<close> the doubles are exact enough: on an open session, with
  \<open>0 < duration_ms < 2^52\<close> and \<open>0 < \<bar>period_ms\<bar> < 2^52\<close>, the count after the override is
  \<open>k = max 1 (round (duration_ms / period_ms))\<close>, the rounding of the exact quotient to the
  nearest integer, a tie going to the even one, whatever \<open>n\<close> was passed: two bursts that
  differ only in \<open>n\<close> do the same and return the same. With \<open>duration_ms \<le> 0\<close> the count
  is the \<open>n\<close> that was passed, and the burst takes \<open>k = max 1 n\<close> frames. In both cases
  \<open>k\<close> is the number of frames the burst captures: when the reads after the warm-up deliver
  \<open>k\<close> frames the encoder accepts and the filesystem takes the directory and the files,
  the burst returns \<open>k\<close> paths and has written exactly these \<open>k\<close> files. The burst is
  one planned to last less than \<open>2^31\<close> milliseconds, so that every sleep is one
  \<^verbatim>\<open>time.sleep\<close> takes.
\<close>

theorem burst_effective_count:
  assumes "CAM_cap w = Some cap" and "isOpened cap"
    and "duration_ms < 2 ^ 52" and "\<bar>period_ms\<bar> < 2 ^ 52"
    and "0 < duration_ms \<longrightarrow> period_ms \<noteq> 0"
    and "k = (if 0 < duration_ms
              then max 1 (py_round (of_int duration_ms / of_int period_ms)) else max 1 n)"
    and "(k - 1) * period_ms < 2 ^ 31"
    and "nat (max 0 warmup) + nat k \<le> length (pending cap)"
    and "\<forall>g\<in>set (take (nat k) (drop (nat (max 0 warmup)) (pending cap))). good E fmt g"
    and "mkdir_fault E (expanduser E save_dir) = None" and "fs_sound E"
  shows "burst_n n period_ms duration_ms = Inr (if 0 < duration_ms then k else n)
       \<and> (\<exists>ps w'.
            vision_burst E n period_ms save_dir fmt warmup duration_ms w =
              (Inr (Bursted ps (mime_of (ext_of fmt)) (props_width w) (props_height w)
                      (nat k) period_ms duration_ms (expanduser E save_dir)), w')
          \<and> length ps = nat k
          \<and> map fst (fs_files w') = map fst (fs_files w) @ ps)
       \<and> (0 < duration_ms \<longrightarrow>
            vision_burst E n' period_ms save_dir fmt warmup duration_ms w =
            vision_burst E n period_ms save_dir fmt warmup duration_ms w)"
proof -
  define k0 where "k0 = (if 0 < duration_ms then k else n)"
  have cnt: "burst_n n period_ms duration_ms = Inr k0"
  proof (cases "0 < duration_ms")
    case True
    then have "burst_n n period_ms duration_ms =
                 Inr (max 1 (py_round (of_int duration_ms / of_int period_ms)))"
      using assms(3,4,5) by (intro burst_n_exact) simp_all
    then show ?thesis using True assms(6) by (simp add: k0_def)
  next
    case False
    then show ?thesis by (simp add: burst_n_def k0_def)
  qed
  have k: "nat (max 1 k0) = nat k" using assms(6) by (simp add: k0_def)
  have len: "nat (max 0 warmup) + nat (max 1 k0) \<le> length (pending cap)"
    using assms(8) by (simp only: k)
  have good: "\<forall>g\<in>set (take (nat (max 1 k0)) (drop (nat (max 0 warmup)) (pending cap))).
                good E fmt g"
    using assms(9) by (simp only: k)
  from burst_run_ok [OF assms(1,2) cnt len good assms(10,11)] obtain ps w' where
    run: "vision_burst E n period_ms save_dir fmt warmup duration_ms w =
             (Inr (Bursted ps (mime_of (ext_of fmt)) (props_width w) (props_height w)
                     (nat k) period_ms duration_ms (expanduser E save_dir)), w')"
      "length ps = nat k"
      "map fst (fs_files w') = map fst (fs_files w) @ ps"
    unfolding k by blast
  have "burst_n n' period_ms duration_ms = burst_n n period_ms duration_ms"
    if "0 < duration_ms"
    using that by (simp add: burst_n_def)
  then have same: "vision_burst E n' period_ms save_dir fmt warmup duration_ms w =
             vision_burst E n period_ms save_dir fmt warmup duration_ms w"
    if "0 < duration_ms"
    using that by (simp only: vision_burst_def)
  from cnt run same show ?thesis unfolding k0_def by blast
qed

theorem burst_effective_count_witness:
  "burst_n 2 100 500 = Inr 5
   \<and> length (result_paths (fst (vision_burst bench_env 2 100 ''.'' ''jpg'' 0 500 (open_world 8)))) = 5
   \<and> vision_burst bench_env 8 100 ''.'' ''jpg'' 0 500 (open_world 8) =
       vision_burst bench_env 2 100 ''.'' ''jpg'' 0 500 (open_world 8)
   \<and> burst_n 2 100 0 = Inr 2
   \<and> length (result_paths (fst (vision_burst bench_env 2 100 ''.'' ''jpg'' 0 0 (open_world 8)))) = 2"
proof -
  have g: "\<forall>g\<in>set (take (nat k) (drop (nat (max 0 0)) (pending (bench_cam 8)))).
          good bench_env ''jpg'' g" for k
    by (auto dest: in_set_takeD bench_good)
  have r: "py_round 5 = 5" using py_round_of_int [of 5] by simp
  from burst_effective_count [of "open_world 8" "bench_cam 8" 500 100 5 2 0 bench_env "''jpg''"
      "''.''" 8, OF bench_open(1,2) _ _ _ _ _ _ g bench_dir(1) bench_fs_sound]
  have a: "burst_n 2 100 500 = Inr 5
     \<and> length (result_paths (fst (vision_burst bench_env 2 100 ''.'' ''jpg'' 0 500 (open_world 8)))) = 5
     \<and> vision_burst bench_env 8 100 ''.'' ''jpg'' 0 500 (open_world 8) =
         vision_burst bench_env 2 100 ''.'' ''jpg'' 0 500 (open_world 8)"
    by (auto simp: r bench_pending_length)
  from burst_effective_count [of "open_world 8" "bench_cam 8" 0 100 2 2 0 bench_env "''jpg''"
      "''.''" 8, OF bench_open(1,2) _ _ _ _ _ _ g bench_dir(1) bench_fs_sound]
  have b: "burst_n 2 100 0 = Inr 2
     \<and> length (result_paths (fst (vision_burst bench_env 2 100 ''.'' ''jpg'' 0 0 (open_world 8)))) = 2"
    by (auto simp: bench_pending_length)
  from a b show ?thesis by simp
qed

subsection \<open>The schedule\<close>

text \<open>
  C5. On an open session (with a clock that does not run backwards: no read takes negative
  time), once the count is computed and the directory is there, what the burst does to the
  clock and the device after the warm-up is the schedule of the specification, run from
  the instant \<open>t0\<close> taken once before the loop, for the frames \<open>0, ..., m - 1\<close> it gets
  to: frame \<open>i\<close> has the target \<open>t0 + i * (period_ms / 1000)\<close>, which depends on \<open>t0\<close> and
  \<open>i\<close> alone; a target in the future is slept up to exactly, a target that has passed
  is not slept for. A burst that succeeds gets to all \<open>max 1 k\<close> frames. The code clamps
  a negative period to zero; since the clock is never before \<open>t0\<close>, the targets of the
  specification and those of the code ask for the same sleeps.
\<close>

theorem burst_schedule:
  assumes "CAM_cap w = Some cap" and "isOpened cap" and "\<forall>g\<in>set (pending cap). 0 \<le> took g"
    and "burst_n n period_ms duration_ms = Inr k"
    and "mkdir_fault E (expanduser E save_dir) = None"
  shows "\<exists>m\<le>nat (max 1 k).
           trace (snd (vision_burst E n period_ms save_dir fmt warmup duration_ms w)) =
             trace (burst_warm cap warmup w)
             @ spec_trace (mono (burst_warm cap warmup w)) period_ms
                 (mono (burst_warm cap warmup w)) [0..<m]
                 (map took (drop (nat (max 0 warmup)) (pending cap)))
         \<and> (\<forall>r. fst (vision_burst E n period_ms save_dir fmt warmup duration_ms w) = Inr r
                \<longrightarrow> ok r \<longrightarrow> m = nat (max 1 k))"
proof -
  define N where "N = nat (max 1 k)"
  define w2 where "w2 = burst_warm cap warmup w"
  define out_dir where "out_dir = expanduser E save_dir"
  from burst_warm_cap(1)[of cap warmup w] obtain c2 where
    c2: "CAM_cap w2 = Some c2" "isOpened c2"
        "pending c2 = drop (nat (max 0 warmup)) (pending cap)"
    using assms(2) by (auto simp: w2_def)
  from mkdir_ok[OF assms(5), of w2] obtain w3 where
    w3: "mkdir E out_dir w2 = Inr w3" "CAM_cap w3 = CAM_cap w2" "mono w3 = mono w2"
        "trace w3 = trace w2"
    by (auto simp: out_dir_def)
  obtain fin w4 where loop:
    "burst_frames E (mono w3) (period_s period_ms) fmt (ext_of fmt) out_dir [0..<N] [] w3 = (fin, w4)"
    by (cases "burst_frames E (mono w3) (period_s period_ms) fmt (ext_of fmt) out_dir [0..<N] [] w3")
  have lat: "\<forall>g\<in>set (pending c2). 0 \<le> took g"
    using assms(3) c2(3) by (auto dest: in_set_dropD)
  have c3: "CAM_cap w3 = Some c2" using w3(2) c2(1) by simp
  have t0: "mono w3 \<le> mono w3" by simp
  from burst_frames_trace[OF c3 c2(2) lat t0 loop] obtain m where
    m0: "m \<le> length [0..<N]"
       "trace w4 = trace w3 @ spec_trace (mono w3) period_ms (mono w3) (take m [0..<N])
                     (map took (pending c2))"
       "\<forall>q. fin = Ran q \<longrightarrow> m = length [0..<N]"
    by blast
  have m: "m \<le> N" "\<forall>q. fin = Ran q \<longrightarrow> m = N" using m0(1,3) by simp_all
  have tk: "take m [0..<N] = [0..<m]" using m(1) by simp
  have res: "vision_burst E n period_ms save_dir fmt warmup duration_ms w =
         (case fin of Raised e \<Rightarrow> Inl e | Returned r \<Rightarrow> Inr r
          | Ran paths \<Rightarrow> Inr (Bursted paths (mime_of (ext_of fmt)) (props_width w3)
               (props_height w3) (length paths) period_ms duration_ms out_dir), w4)"
    using assms(1,2,4) w3(1) loop
    by (simp add: vision_burst_def Let_def w2_def[symmetric] out_dir_def[symmetric]
        N_def[symmetric] split: loop_end.splits)
  have okr: "m = N" if "fst (vision_burst E n period_ms save_dir fmt warmup duration_ms w) = Inr r"
    and "ok r" for r
  proof (cases fin)
    case (Raised e)
    with res that show ?thesis by simp
  next
    case (Returned r')
    with burst_frames_shape[OF loop] obtain msg new where "r' = FailedPaths msg ([] @ new)" by blast
    then have "\<not> ok r'" by simp
    with Returned res that show ?thesis by simp
  next
    case (Ran q)
    with m(2) show ?thesis by simp
  qed
  show ?thesis
    using m(1) m0(2) okr res tk w3(3,4) c2(3)
    unfolding N_def[symmetric] w2_def[symmetric]
    by (intro exI[of _ m]) auto
qed

theorem burst_schedule_witness:
  "trace (snd (vision_burst bench_env 3 100 ''.'' ''jpg'' 0 0 (open_world 5))) =
     [ReadAt 5, Slept (9 / 100), ReadAt (51 / 10), Slept (9 / 100), ReadAt (26 / 5)]
   \<and> trace (snd (vision_burst bench_env 3 5 ''.'' ''jpg'' 0 0 (open_world 5))) =
     [ReadAt 5, ReadAt (501 / 100), ReadAt (251 / 50)]"
proof -
  have lat: "\<forall>g\<in>set (pending (bench_cam 5)). 0 \<le> took g"
    by (simp add: bench_cam_def)
  have g: "\<forall>g\<in>set (take (nat (max 1 3)) (drop (nat (max 0 0)) (pending (bench_cam 5)))).
          good bench_env ''jpg'' g"
    by (auto dest: in_set_takeD bench_good)
  have w0: "mono (burst_warm (bench_cam 5) 0 (open_world 5)) = 5"
    "trace (burst_warm (bench_cam 5) 0 (open_world 5)) = []"
    by code_simp+
  have sp: "spec_trace 5 100 5 [0..<3] (map took (pending (bench_cam 5))) =
          [ReadAt 5, Slept (9 / 100), ReadAt (51 / 10), Slept (9 / 100), ReadAt (26 / 5)]"
    "spec_trace 5 5 5 [0..<3] (map took (pending (bench_cam 5))) =
          [ReadAt 5, ReadAt (501 / 100), ReadAt (251 / 50)]"
    by code_simp+
  have run: "\<exists>r. fst (vision_burst bench_env 3 pm ''.'' ''jpg'' 0 0 (open_world 5)) = Inr r \<and> ok r"
    for pm
    using burst_run_ok[of "open_world 5" "bench_cam 5" 3 pm 0 3 0 bench_env "''jpg''" "''.''",
      OF bench_open(1,2) _ _ g bench_dir(1) bench_fs_sound]
    by (auto simp: burst_n_def bench_pending_length)
  have n: "burst_n 3 pm 0 = Inr 3" for pm by (simp add: burst_n_def)
  from burst_schedule[of "open_world 5" "bench_cam 5" 3 100 0 3 bench_env "''.''" "''jpg''" 0,
      OF bench_open(1,2) lat n bench_dir(1)] run[of 100]
  have a: "trace (snd (vision_burst bench_env 3 100 ''.'' ''jpg'' 0 0 (open_world 5))) =
     [ReadAt 5, Slept (9 / 100), ReadAt (51 / 10), Slept (9 / 100), ReadAt (26 / 5)]"
    by (auto simp: w0 sp)
  from burst_schedule[of "open_world 5" "bench_cam 5" 3 5 0 3 bench_env "''.''" "''jpg''" 0,
      OF bench_open(1,2) lat n bench_dir(1)] run[of 5]
  have b: "trace (snd (vision_burst bench_env 3 5 ''.'' ''jpg'' 0 0 (open_world 5))) =
     [ReadAt 5, ReadAt (501 / 100), ReadAt (251 / 50)]"
    by (auto simp: w0 sp)
  from a b show ?thesis by simp
qed

subsection \<open>Opening twice\<close>

text \<open>
  C6. When a handle is present, \<^verbatim>\<open>vision_start\<close> with any arguments answers
  \<open>ok = True\<close> with the message "Camera already open", reports the index and the
  properties the session already had, and leaves the whole state as it was: handle, index
  and properties. So a second open in a row succeeds and changes nothing.
\<close>

theorem vision_start_already_open:
  assumes "CAM_cap w \<noteq> None"
  shows "vision_start E camera_index width height fps backend w =
           (Started True ''Camera already open'' (CAM_props w) (CAM_index w), w)"
  using assms by (simp add: vision_start_def open_cam_def)

theorem vision_start_already_open_witness:
  "CAM_cap (snd (vision_start bench_env 0 640 480 15 ''auto'' closed_world)) \<noteq> None
   \<and> fst (vision_start bench_env 0 640 480 15 ''auto'' closed_world) =
       Started True ''Camera opened''
         (Some \<lparr>p_width = 640, p_height = 480, p_fps = 15, p_backend = ''auto''\<rparr>) (Some 0)
   \<and> vision_start bench_env 1 320 240 30 ''dshow''
         (snd (vision_start bench_env 0 640 480 15 ''auto'' closed_world)) =
       (Started True ''Camera already open''
          (Some \<lparr>p_width = 640, p_height = 480, p_fps = 15, p_backend = ''auto''\<rparr>) (Some 0),
        snd (vision_start bench_env 0 640 480 15 ''auto'' closed_world))"
proof -
  define w1 where "w1 = snd (vision_start bench_env 0 640 480 15 ''auto'' closed_world)"
  have first: "fst (vision_start bench_env 0 640 480 15 ''auto'' closed_world) =
       Started True ''Camera opened''
         (Some \<lparr>p_width = 640, p_height = 480, p_fps = 15, p_backend = ''auto''\<rparr>) (Some 0)"
    by code_simp
  have st: "CAM_cap w1 \<noteq> None"
    "CAM_props w1 = Some \<lparr>p_width = 640, p_height = 480, p_fps = 15, p_backend = ''auto''\<rparr>"
    "CAM_index w1 = Some 0"
    unfolding w1_def by code_simp+
  from vision_start_already_open[OF st(1), of bench_env 1 320 240 30 "''dshow''"] st first
  show ?thesis
    unfolding w1_def by simp
qed

subsection \<open>A closed session\<close>

text \<open>
  C7. With no handle in the session, \<^verbatim>\<open>vision_capture\<close> and \<^verbatim>\<open>vision_burst\<close>
  return a failure at once, both with the error "Camera not open", and the state after is
  the state before: no file, no directory, no read, no sleep.
\<close>

theorem closed_session_no_effect:
  assumes "CAM_cap w = None"
  shows "vision_capture E save_dir fmt w = (Inr (Failed ''Camera not open''), w)
       \<and> vision_burst E n period_ms save_dir fmt warmup duration_ms w =
           (Inr (Failed ''Camera not open''), w)"
  using assms by (simp add: vision_capture_def vision_burst_def grab_frame_def)

theorem closed_session_no_effect_witness:
  "CAM_cap closed_world = None
   \<and> vision_capture bench_env ''.'' ''jpg'' closed_world =
       (Inr (Failed ''Camera not open''), closed_world)
   \<and> vision_burst bench_env 8 150 ''.'' ''jpg'' 3 0 closed_world =
       (Inr (Failed ''Camera not open''), closed_world)"
  using closed_session_no_effect [of closed_world bench_env "''.''" "''jpg''" 8 150 3 0]
  by (simp add: closed_world_def)

subsection \<open>Formats\<close>

text \<open>
  C8. Capture and burst decide the format by the test \<^verbatim>\<open>fmt.lower() == "jpg"\<close>, which
  holds for exactly the eight spellings of \<open>jpg\<close> in upper and lower case. When it holds,
  every file written gets the extension \<open>.jpg\<close> and the MIME type returned is
  \<open>image/jpeg\<close>; for every other format argument the extension is \<open>.png\<close> and the MIME type
  \<open>image/png\<close>. This is so for the file of a successful capture and for every path a burst
  returns, complete or partial; the paths returned are the files created.
\<close>

theorem format_fallback:
  "(vision_capture E save_dir fmt w = (Inr (Captured p m wd ht), w') \<longrightarrow>
      m = (if lower fmt = ''jpg'' then ''image/jpeg'' else ''image/png'')
      \<and> suffix (if lower fmt = ''jpg'' then ''.jpg'' else ''.png'') (snd p)
      \<and> map fst (fs_files w') = map fst (fs_files w) @ [p])
   \<and> (vision_burst E n period_ms save_dir fmt warmup duration_ms w = (Inr r, w'') \<longrightarrow>
      list_all (\<lambda>p. suffix (if lower fmt = ''jpg'' then ''.jpg'' else ''.png'') (snd p))
        (result_paths (Inr r))
      \<and> map fst (fs_files w'') = map fst (fs_files w) @ result_paths (Inr r)
      \<and> (\<forall>ps m wd ht cnt pm dm d. r = Bursted ps m wd ht cnt pm dm d \<longrightarrow>
            m = (if lower fmt = ''jpg'' then ''image/jpeg'' else ''image/png'')))
   \<and> (lower fmt = ''jpg'' \<longleftrightarrow>
        (\<exists>a b c. fmt = [a, b, c] \<and> (a = CHR ''j'' \<or> a = CHR ''J'')
           \<and> (b = CHR ''p'' \<or> b = CHR ''P'') \<and> (c = CHR ''g'' \<or> c = CHR ''G'')))"
  using capture_shape[of E save_dir fmt w p m wd ht w', unfolded ext_mime(2), unfolded ext_mime(1)]
    burst_shape[of E n period_ms save_dir fmt warmup duration_ms w r w'',
      unfolded ext_mime(2), unfolded ext_mime(1)]
    lower_jpg_iff[of fmt]
  by blast

theorem format_fallback_witness:
  "vision_capture bench_env ''.'' ''xyz'' (open_world 1) =
     (Inr (Captured (''.'', ''frame_20250101_120000_260.png'') ''image/png'' 640 480),
      snd (vision_capture bench_env ''.'' ''xyz'' (open_world 1)))
   \<and> suffix ''.png'' ''frame_20250101_120000_260.png''
   \<and> map fst (fs_files (snd (vision_capture bench_env ''.'' ''xyz'' (open_world 1)))) =
       [(''.'', ''frame_20250101_120000_260.png'')]
   \<and> (\<exists>ps w'. vision_burst bench_env 2 100 ''.'' ''Jpg'' 0 0 (open_world 2) =
                 (Inr (Bursted ps ''image/jpeg'' 640 480 2 100 0 ''.''), w')
          \<and> list_all (\<lambda>p. suffix ''.jpg'' (snd p)) ps
          \<and> map fst (fs_files w') = ps)"
proof -
  have c: "fst (vision_capture bench_env ''.'' ''xyz'' (open_world 1)) =
             Inr (Captured (''.'', ''frame_20250101_120000_260.png'') ''image/png'' 640 480)"
    by code_simp
  then have c': "vision_capture bench_env ''.'' ''xyz'' (open_world 1) =
     (Inr (Captured (''.'', ''frame_20250101_120000_260.png'') ''image/png'' 640 480),
      snd (vision_capture bench_env ''.'' ''xyz'' (open_world 1)))"
    by (metis prod.collapse)
  have l: "lower ''xyz'' \<noteq> ''jpg''" "lower ''Jpg'' = ''jpg''" by code_simp+
  have g: "\<forall>g\<in>set (take (nat (max 1 2)) (drop (nat (max 0 0)) (pending (bench_cam 2)))).
          good bench_env ''Jpg'' g"
    by (auto dest: in_set_takeD bench_good)
  have e: "mime_of (ext_of ''Jpg'') = ''image/jpeg''" by code_simp
  have p: "props_width (open_world 2) = 640" "props_height (open_world 2) = 480"
    by (simp_all add: props_width_def props_height_def open_world_def closed_world_def)
  from burst_run_ok[of "open_world 2" "bench_cam 2" 2 100 0 2 0 bench_env "''Jpg''" "''.''",
      OF bench_open(1,2) _ _ g bench_dir(1) bench_fs_sound]
  obtain ps w' where b: "vision_burst bench_env 2 100 ''.'' ''Jpg'' 0 0 (open_world 2) =
                 (Inr (Bursted ps ''image/jpeg'' 640 480 2 100 0 ''.''), w')"
    by (auto simp: burst_n_def bench_pending_length bench_dir e p)
  from format_fallback[of bench_env "''.''" "''xyz''" "open_world 1"
      "(''.'', ''frame_20250101_120000_260.png'')" "''image/png''" 640 480
      "snd (vision_capture bench_env ''.'' ''xyz'' (open_world 1))"] c' l(1)
  have one: "suffix ''.png'' ''frame_20250101_120000_260.png''"
    "map fst (fs_files (snd (vision_capture bench_env ''.'' ''xyz'' (open_world 1)))) =
       [(''.'', ''frame_20250101_120000_260.png'')]"
    by (simp_all add: bench_open)
  from format_fallback[where E = bench_env and n = 2 and period_ms = 100 and save_dir = "''.''"
      and fmt = "''Jpg''" and warmup = 0 and duration_ms = 0 and w = "open_world 2"
      and r = "Bursted ps ''image/jpeg'' 640 480 2 100 0 ''.''" and w'' = w'] b l(2)
  have two: "list_all (\<lambda>p. suffix ''.jpg'' (snd p)) ps" "map fst (fs_files w') = ps"
    by (simp_all add: bench_open)
  from c' one two b show ?thesis by blast
qed

subsection \<open>Backends\<close>

text \<open>
  C9 as stated fails: an unrecognised backend opens the device as \<open>auto\<close> does, but the
  name recorded in the properties and the name in the failure message are the lowercased,
  trimmed input, not \<open>auto\<close>.
\<close>

theorem unknown_backend_recorded:
  "fst (vision_start bench_env 0 640 480 15 ''xyz'' closed_world) =
     Started True ''Camera opened''
       (Some \<lparr>p_width = 640, p_height = 480, p_fps = 15, p_backend = ''xyz''\<rparr>) (Some 0)
   \<and> fst (vision_start bench_env 0 640 480 15 ''auto'' closed_world) =
     Started True ''Camera opened''
       (Some \<lparr>p_width = 640, p_height = 480, p_fps = 15, p_backend = ''auto''\<rparr>) (Some 0)
   \<and> fst (vision_start bench_env 1 640 480 15 ''xyz'' closed_world) =
     Started False ''Failed to open camera index 1 (backend=xyz)'' None None
   \<and> fst (vision_start bench_env 1 640 480 15 ''auto'' closed_world) =
     Started False ''Failed to open camera index 1 (backend=auto)'' None None"
  by code_simp

text \<open>
  C9, amended. The backend is matched on the input lowercased and then trimmed (the empty
  input counting as \<open>auto\<close>): two inputs with the same such form open the camera in the
  same way, with the same result and state. On a closed session an input whose form is
  none of the five names acquires the handle as \<open>auto\<close> does, with the same success flag,
  handle, index, width, height and frame rate; but the backend recorded in the properties,
  and the backend named in the failure message, is the lowercased, trimmed input itself.
\<close>

theorem backend_matching:
  "(backend_key b = backend_key b' \<longrightarrow>
      vision_start E camera_index width height fps b w =
      vision_start E camera_index width height fps b' w)
   \<and> (CAM_cap w = None
        \<and> backend_key b \<notin> {''auto'', ''avfoundation'', ''msmf'', ''dshow'', ''v4l2''} \<longrightarrow>
      (let ((okA, msgA), wA) = open_cam E camera_index width height fps ''auto'' w;
           ((okB, msgB), wB) = open_cam E camera_index width height fps b w
       in okB = okA
          \<and> CAM_cap wB = CAM_cap wA \<and> CAM_index wB = CAM_index wA
          \<and> (if okA
               then msgB = msgA
                    \<and> wB = wA\<lparr>CAM_props :=
                                map_option (\<lambda>p. p\<lparr>p_backend := backend_key b\<rparr>) (CAM_props wA)\<rparr>
               else msgB = ''Failed to open camera index '' @ str_int camera_index
                             @ '' (backend='' @ backend_key b @ '')''
                    \<and> msgA = ''Failed to open camera index '' @ str_int camera_index
                             @ '' (backend=auto)''
                    \<and> wB = wA)))"
proof -
  have "open_cam E camera_index width height fps b w =
        open_cam E camera_index width height fps b' w" if "backend_key b = backend_key b'"
    using that by (simp add: open_cam_def)
  then have one: "vision_start E camera_index width height fps b w =
      vision_start E camera_index width height fps b' w" if "backend_key b = backend_key b'"
    using that by (simp add: vision_start_def)
  have two: "(let ((okA, msgA), wA) = open_cam E camera_index width height fps ''auto'' w;
           ((okB, msgB), wB) = open_cam E camera_index width height fps b w
       in okB = okA
          \<and> CAM_cap wB = CAM_cap wA \<and> CAM_index wB = CAM_index wA
          \<and> (if okA
               then msgB = msgA
                    \<and> wB = wA\<lparr>CAM_props :=
                                map_option (\<lambda>p. p\<lparr>p_backend := backend_key b\<rparr>) (CAM_props wA)\<rparr>
               else msgB = ''Failed to open camera index '' @ str_int camera_index
                             @ '' (backend='' @ backend_key b @ '')''
                    \<and> msgA = ''Failed to open camera index '' @ str_int camera_index
                             @ '' (backend=auto)''
                    \<and> wB = wA))"
    if "CAM_cap w = None"
      and "backend_key b \<notin> {''auto'', ''avfoundation'', ''msmf'', ''dshow'', ''v4l2''}"
    using that(1) api_pref_unknown[OF that(2), of E]
    by (simp add: open_cam_def Let_def backend_auto api_pref_auto)
  from one two show ?thesis by blast
qed

theorem backend_matching_witness:
  "backend_key '' V4L2 '' = backend_key ''v4l2''
   \<and> vision_start bench_env 0 640 480 15 '' V4L2 '' closed_world =
       vision_start bench_env 0 640 480 15 ''v4l2'' closed_world
   \<and> CAM_cap closed_world = None
   \<and> backend_key '' XyZ'' = ''xyz''
   \<and> fst (fst (open_cam bench_env 0 640 480 15 '' XyZ'' closed_world)) =
       fst (fst (open_cam bench_env 0 640 480 15 ''auto'' closed_world))
   \<and> CAM_cap (snd (open_cam bench_env 0 640 480 15 '' XyZ'' closed_world)) =
       CAM_cap (snd (open_cam bench_env 0 640 480 15 ''auto'' closed_world))"
proof -
  have k: "backend_key '' V4L2 '' = backend_key ''v4l2''" "backend_key '' XyZ'' = ''xyz''"
    by code_simp+
  have c: "CAM_cap closed_world = None" by (simp add: closed_world_def)
  have u: "backend_key '' XyZ'' \<notin> {''auto'', ''avfoundation'', ''msmf'', ''dshow'', ''v4l2''}"
    by (simp add: k)
  from backend_matching[of "'' V4L2 ''" "''v4l2''" bench_env 0 640 480 15 closed_world] k(1)
  have one: "vision_start bench_env 0 640 480 15 '' V4L2 '' closed_world =
       vision_start bench_env 0 640 480 15 ''v4l2'' closed_world" by blast
  from backend_matching[of "'' XyZ''" "'' XyZ''" bench_env 0 640 480 15 closed_world] c u
  have two: "fst (fst (open_cam bench_env 0 640 480 15 '' XyZ'' closed_world)) =
       fst (fst (open_cam bench_env 0 640 480 15 ''auto'' closed_world))
     \<and> CAM_cap (snd (open_cam bench_env 0 640 480 15 '' XyZ'' closed_world)) =
       CAM_cap (snd (open_cam bench_env 0 640 480 15 ''auto'' closed_world))"
    by (auto simp: Let_def split: prod.splits if_splits)
  from k c one two show ?thesis by blast
qed

subsection \<open>A period of zero\<close>

text \<open>
  C10 as stated fails on a closed session: the guard of line 231 returns the structured
  failure before the division of line 236 is reached.
\<close>

theorem zero_period_closed_session:
  "vision_burst bench_env 8 0 ''.'' ''jpg'' 3 500 closed_world =
     (Inr (Failed ''Camera not open''), closed_world)"
  by (simp add: vision_burst_def closed_world_def)

text \<open>
  C10, amended. On an open session (a handle that reports itself opened) and with
  \<open>duration_ms > 0\<close>, the count is computed by a division with no guard on the divisor:
  with \<open>period_ms = 0\<close> the burst raises before it touches anything and returns no
  dictionary, so a returned dictionary implies \<open>period_ms \<noteq> 0\<close>. What it raises is the
  division-by-zero error, unless \<open>duration_ms\<close> is \<open>2^1024 - 2^970\<close> or more: then
  \<^verbatim>\<open>float(duration_ms)\<close>, which is evaluated before the division, raises
  \<^verbatim>\<open>OverflowError\<close>.
\<close>

theorem burst_zero_period_raises:
  assumes "CAM_cap w = Some cap" and "isOpened cap" and "0 < duration_ms"
  shows "(period_ms = 0 \<longrightarrow>
            vision_burst E n period_ms save_dir fmt warmup duration_ms w =
              (Inl (if duration_ms < float_limit then ZeroDivisionError else OverflowError), w))
       \<and> (\<forall>r. fst (vision_burst E n period_ms save_dir fmt warmup duration_ms w) = Inr r
              \<longrightarrow> period_ms \<noteq> 0)"
proof -
  have "burst_n n 0 duration_ms =
          Inl (if duration_ms < float_limit then ZeroDivisionError else OverflowError)"
    using assms(3) by (simp add: burst_n_def py_float_def fl_zero float_limit_pos)
  then have "vision_burst E n 0 save_dir fmt warmup duration_ms w =
          (Inl (if duration_ms < float_limit then ZeroDivisionError else OverflowError), w)"
    using assms(1,2) by (simp add: vision_burst_def)
  then show ?thesis by auto
qed

theorem burst_zero_period_raises_witness:
  "CAM_cap (open_world 3) = Some (bench_cam 3) \<and> isOpened (bench_cam 3) \<and> (0::int) < 500
   \<and> vision_burst bench_env 8 0 ''.'' ''jpg'' 3 500 (open_world 3) =
       (Inl ZeroDivisionError, open_world 3)
   \<and> fst (vision_burst bench_env 8 100 ''.'' ''jpg'' 3 500 (open_world 3)) =
       Inr (FailedPaths ''Failed to read frame: Failed to read frame'' [])"
proof -
  have "fst (vision_burst bench_env 8 100 ''.'' ''jpg'' 3 500 (open_world 3)) =
       Inr (FailedPaths ''Failed to read frame: Failed to read frame'' [])"
    by code_simp
  with burst_zero_period_raises [of "open_world 3" "bench_cam 3" 500 0 bench_env 8 "''.''"
      "''jpg''" 3]
  show ?thesis
    by (simp add: bench_open float_limit_def)
qed

end
